theory Spec2Isabelle
  imports Complex_Main "HOL-Library.Word"
begin

section \<open>Exceptions\<close>

text \<open>
  The exceptions that the modelled code can raise.  \<open>NotImplementedError\<close> is raised by
  \<open>Window.__eq__\<close>; \<open>ZeroDivisionError\<close>, \<open>OverflowError\<close> and \<open>ValueError\<close> by
  Python's arithmetic (\<open>/\<close>, the conversion of an int to a float, \<open>int(x)\<close>);
  \<open>pywintypes_error\<close> by a failing win32 call and \<open>psutil_Error\<close> by a failing
  \<open>psutil\<close> call.  A function that can raise returns \<open>error + 'a\<close>, \<open>Inl\<close> the exception.
\<close>

datatype error =
    NotImplementedError
  | ZeroDivisionError
  | OverflowError
  | ValueError
  | pywintypes_error
  | psutil_Error

definition ebind :: "error + 'a \<Rightarrow> ('a \<Rightarrow> error + 'b) \<Rightarrow> error + 'b" where
  "ebind m f = (case m of Inl e \<Rightarrow> Inl e | Inr x \<Rightarrow> f x)"

section \<open>Python floats\<close>

text \<open>
  A Python \<open>float\<close> is an IEEE 754 binary64 value: a finite value (a rational with a
  53-bit significand and an exponent in the binary64 range), an infinity or a NaN.  The
  sign of a zero is not kept: nothing in the modelled code can observe it (\<open>int(-0.0)\<close> is
  \<open>0\<close>, a division by either zero raises).  Every operation computes the exact rational
  result and rounds it once, to nearest, ties to even, as the hardware does.
\<close>

datatype pyfloat = Finite rat | PInf | NInf | NaN

function bit_length :: "int \<Rightarrow> nat" where
  "bit_length n = (if n \<le> 0 then 0 else Suc (bit_length (n div 2)))"
  by pat_completeness auto
termination
  by (relation "measure nat") auto

declare bit_length.simps [simp del]

text \<open>Rounding to the nearest integer, ties to the even one.\<close>

definition rne :: "rat \<Rightarrow> int" where
  "rne x = (let f = \<lfloor>x\<rfloor>; r = x - of_int f
            in if r < 1 / 2 then f
               else if 1 / 2 < r then f + 1
               else if even f then f else f + 1)"

text \<open>\<open>exponent2 a\<close> is \<open>\<lfloor>log\<^sub>2 a\<rfloor>\<close> for a positive rational \<open>a\<close>.\<close>

definition exponent2 :: "rat \<Rightarrow> int" where
  "exponent2 a = (case quotient_of a of (p, q) \<Rightarrow>
     let e = int (bit_length p) - int (bit_length q)
     in if 2 powi e \<le> a then e else e - 1)"

text \<open>
  The binary64 value nearest to a rational \<open>x\<close>.  The doubles around \<open>x\<close> are the
  multiples of \<open>2 powi quantum x\<close>, where \<open>quantum x\<close> is the exponent of \<open>x\<close> less 52
  (a significand of 53 bits), and at least \<open>-1074\<close> (the subnormal range); \<open>round_val x\<close>
  is the multiple nearest to \<open>x\<close>.  A result of magnitude \<open>2 ^ 1024\<close> or more is an
  infinity.
\<close>

definition quantum :: "rat \<Rightarrow> int" where
  "quantum x = max (exponent2 \<bar>x\<bar> - 52) (- 1074)"

definition round_val :: "rat \<Rightarrow> rat" where
  "round_val x =
     (if x = 0 then 0 else of_int (rne (x / 2 powi quantum x)) * 2 powi quantum x)"

definition round_to_double :: "rat \<Rightarrow> pyfloat" where
  "round_to_double x =
     (let y = round_val x
      in if 2 ^ 1024 \<le> y then PInf
         else if y \<le> - (2 ^ 1024) then NInf
         else Finite y)"

text \<open>\<open>float(n)\<close> for an int \<open>n\<close>: correctly rounded; OverflowError when out of range.\<close>

definition float_of_int :: "int \<Rightarrow> error + pyfloat" where
  "float_of_int n = (case round_to_double (of_int n) of
       Finite y \<Rightarrow> Inr (Finite y)
     | _ \<Rightarrow> Inl OverflowError)"

text \<open>The sign of a float that is not a NaN: \<open>-1\<close>, \<open>0\<close> or \<open>1\<close>.\<close>

definition float_sign :: "pyfloat \<Rightarrow> int" where
  "float_sign x = (case x of
       Finite a \<Rightarrow> if a = 0 then 0 else if 0 < a then 1 else - 1
     | PInf \<Rightarrow> 1
     | NInf \<Rightarrow> - 1
     | NaN \<Rightarrow> 0)"

text \<open>\<open>x * y\<close> on floats: never raises (an overflow is an infinity).\<close>

definition float_mul :: "pyfloat \<Rightarrow> pyfloat \<Rightarrow> pyfloat" where
  "float_mul x y = (case (x, y) of
       (Finite a, Finite b) \<Rightarrow> round_to_double (a * b)
     | _ \<Rightarrow> if x = NaN \<or> y = NaN then NaN
            else let s = float_sign x * float_sign y
                 in if s = 0 then NaN else if 0 < s then PInf else NInf)"

text \<open>\<open>x + y\<close> on floats.\<close>

definition float_add :: "pyfloat \<Rightarrow> pyfloat \<Rightarrow> pyfloat" where
  "float_add x y = (case (x, y) of
       (Finite a, Finite b) \<Rightarrow> round_to_double (a + b)
     | (Finite a, _) \<Rightarrow> y
     | (_, Finite b) \<Rightarrow> x
     | _ \<Rightarrow> if x = y then x else NaN)"

text \<open>\<open>x / y\<close> on floats: ZeroDivisionError when \<open>y\<close> is zero.\<close>

definition float_truediv :: "pyfloat \<Rightarrow> pyfloat \<Rightarrow> error + pyfloat" where
  "float_truediv x y = (case y of
       Finite b \<Rightarrow>
         if b = 0 then Inl ZeroDivisionError
         else (case x of
                 Finite a \<Rightarrow> Inr (round_to_double (a / b))
               | NaN \<Rightarrow> Inr NaN
               | PInf \<Rightarrow> Inr (if 0 < b then PInf else NInf)
               | NInf \<Rightarrow> Inr (if 0 < b then NInf else PInf))
     | NaN \<Rightarrow> Inr NaN
     | _ \<Rightarrow> (case x of Finite a \<Rightarrow> Inr (Finite 0) | _ \<Rightarrow> Inr NaN))"

text \<open>
  \<open>a / b\<close> on ints (true division): the correctly rounded quotient; ZeroDivisionError
  when \<open>b\<close> is zero, OverflowError when the quotient is too large for a float.
\<close>

definition int_truediv :: "int \<Rightarrow> int \<Rightarrow> error + pyfloat" where
  "int_truediv a b =
     (if b = 0 then Inl ZeroDivisionError
      else (case round_to_double (of_int a / of_int b) of
              Finite y \<Rightarrow> Inr (Finite y)
            | _ \<Rightarrow> Inl OverflowError))"

text \<open>
  An int and a float as operands: the int is converted to a float first (which can
  raise OverflowError), then the float operation is done.
\<close>

definition int_mul_float :: "int \<Rightarrow> pyfloat \<Rightarrow> error + pyfloat" where
  "int_mul_float n x = ebind (float_of_int n) (\<lambda>f. Inr (float_mul f x))"

definition int_add_float :: "int \<Rightarrow> pyfloat \<Rightarrow> error + pyfloat" where
  "int_add_float n x = ebind (float_of_int n) (\<lambda>f. Inr (float_add f x))"

definition int_truediv_float :: "int \<Rightarrow> pyfloat \<Rightarrow> error + pyfloat" where
  "int_truediv_float n x = ebind (float_of_int n) (\<lambda>f. float_truediv f x)"

text \<open>
  \<open>int(x)\<close> for a float: truncation towards zero; OverflowError on an infinity,
  ValueError on a NaN.
\<close>

definition rat_trunc :: "rat \<Rightarrow> int" where
  "rat_trunc y = (if 0 \<le> y then \<lfloor>y\<rfloor> else \<lceil>y\<rceil>)"

definition py_int :: "pyfloat \<Rightarrow> error + int" where
  "py_int x = (case x of
       Finite y \<Rightarrow> Inr (rat_trunc y)
     | NaN \<Rightarrow> Inl ValueError
     | _ \<Rightarrow> Inl OverflowError)"

section \<open>Rect and Monitor\<close>

record Rect =
  left :: int
  top' :: int
  right :: int
  bottom :: int

definition width :: "Rect \<Rightarrow> int" where
  "width r = right r - left r"

definition height :: "Rect \<Rightarrow> int" where
  "height r = bottom r - top' r"

definition wh_ratio :: "Rect \<Rightarrow> error + pyfloat" where
  "wh_ratio r = int_truediv (width r) (height r)"

text \<open>
  What win32 hands out for a rectangle: a \<open>RECT\<close> object with the four attributes, or
  a 4-tuple (\<open>GetWindowRect\<close>, the \<open>"Work"\<close> entry of \<open>GetMonitorInfo\<close>).  The four
  coordinates are win32 \<open>LONG\<close>s, signed 32-bit integers; \<open>from_win32_rect\<close> turns them
  into Python ints, which are unbounded from then on.
\<close>

datatype win32_rect =
    RECT_obj "32 word" "32 word" "32 word" "32 word"
  | RECT_tuple "32 word" "32 word" "32 word" "32 word"

fun from_win32_rect :: "win32_rect \<Rightarrow> Rect" where
  "from_win32_rect (RECT_obj l t r b) =
     \<lparr>left = sint l, top' = sint t, right = sint r, bottom = sint b\<rparr>"
| "from_win32_rect (RECT_tuple l t r b) =
     \<lparr>left = sint l, top' = sint t, right = sint r, bottom = sint b\<rparr>"

record Monitor =
  work :: Rect

section \<open>The operating system\<close>

text \<open>
  The win32 calls the geometry code makes.  The queries are functions of the handle:
  \<open>Inl\<close> is the call raising \<open>pywintypes.error\<close> (an invalid handle, a window that has
  been closed).  \<open>IsIconic\<close> and \<open>ShowWindow\<close> return a \<open>BOOL\<close> and do not raise.
  \<open>MoveWindow\<close> is given all its arguments and answers \<open>None\<close> when it succeeds.  The
  calls that change a window are recorded, in order, as the effect of an operation.
\<close>

record os =
  MonitorFromWindow :: "int \<Rightarrow> error + int"
  GetMonitorInfo_Work :: "int \<Rightarrow> error + win32_rect"
  GetWindowRect :: "int \<Rightarrow> error + win32_rect"
  IsIconic :: "int \<Rightarrow> bool"
  MoveWindow :: "int \<Rightarrow> int \<Rightarrow> int \<Rightarrow> int \<Rightarrow> int \<Rightarrow> bool \<Rightarrow> error option"

datatype os_call =
    ShowWindow_call int int
  | MoveWindow_call int int int int int bool

definition SW_RESTORE :: int where
  "SW_RESTORE = 9"

definition from_hwnd :: "os \<Rightarrow> int \<Rightarrow> error + Monitor" where
  "from_hwnd os h =
     ebind (MonitorFromWindow os h) (\<lambda>monitor_handle.
     ebind (GetMonitorInfo_Work os monitor_handle) (\<lambda>w.
     Inr \<lparr>work = from_win32_rect w\<rparr>))"

section \<open>Window\<close>

datatype Process = Process int

record Window =
  pid :: int
  proc :: Process
  hwnd :: int
  title :: string
  process_created_at :: pyfloat

text \<open>A Python value that \<open>==\<close> can be given as its right operand.\<close>

datatype pyval =
    VWindow Window
  | VNone
  | VBool bool
  | VInt int
  | VFloat pyfloat
  | VStr string

text \<open>
  \<open>hash((self.hwnd,))\<close>: the hash of a 1-tuple, a builtin of the interpreter, is a
  parameter \<open>H\<close> (from the tuple, as the list of its items, to the hash).
\<close>

definition Window_hash :: "(int list \<Rightarrow> int) \<Rightarrow> Window \<Rightarrow> int" where
  "Window_hash H self = H [hwnd self]"

fun Window_eq :: "Window \<Rightarrow> pyval \<Rightarrow> error + bool" where
  "Window_eq self (VWindow v) = Inr (hwnd self = hwnd v)"
| "Window_eq self _ = Inl NotImplementedError"

text \<open>
  An operation on a window returns the win32 calls it has issued that change the window,
  and how it ended: \<open>Inr ()\<close>, or \<open>Inl\<close> the exception that left it.
\<close>

definition resize_move_to_center_of_rect ::
    "os \<Rightarrow> Window \<Rightarrow> int \<Rightarrow> int \<Rightarrow> Rect \<Rightarrow> os_call list \<times> (error + unit)" where
  "resize_move_to_center_of_rect os self w h monitor_rect =
     (let restored = (if IsIconic os (hwnd self)
                      then [ShowWindow_call (hwnd self) SW_RESTORE] else [])
      in case int_truediv (width monitor_rect - w) 2 of
           Inl e \<Rightarrow> (restored, Inl e)
         | Inr left_gap \<Rightarrow>
        (case int_truediv (height monitor_rect - h) 2 of
           Inl e \<Rightarrow> (restored, Inl e)
         | Inr top_gap \<Rightarrow>
        (case ebind (int_add_float (left monitor_rect) left_gap) py_int of
           Inl e \<Rightarrow> (restored, Inl e)
         | Inr l \<Rightarrow>
        (case ebind (int_add_float (top' monitor_rect) top_gap) py_int of
           Inl e \<Rightarrow> (restored, Inl e)
         | Inr t \<Rightarrow>
           (restored @ [MoveWindow_call (hwnd self) l t w h True],
            case MoveWindow os (hwnd self) l t w h True of
              Some e \<Rightarrow> Inl e
            | None \<Rightarrow> Inr ())))))"

definition center :: "os \<Rightarrow> Window \<Rightarrow> pyfloat \<Rightarrow> os_call list \<times> (error + unit)" where
  "center os self ratio =
     (case from_hwnd os (hwnd self) of
        Inl e \<Rightarrow> ([], Inl e)
      | Inr monitor \<Rightarrow>
     (case ebind (int_mul_float (width (work monitor)) ratio) py_int of
        Inl e \<Rightarrow> ([], Inl e)
      | Inr w \<Rightarrow>
     (case ebind (int_mul_float (height (work monitor)) ratio) py_int of
        Inl e \<Rightarrow> ([], Inl e)
      | Inr h \<Rightarrow> resize_move_to_center_of_rect os self w h (work monitor))))"

text \<open>The default of \<open>center\<close>'s \<open>ratio\<close>: the float written \<open>0.8\<close>.\<close>

definition default_ratio :: pyfloat where
  "default_ratio = round_to_double (8 / 10)"

text \<open>
  \<open>resize\<close> ends with a \<open>print\<close> of \<open>rect.wh_ratio()\<close>, \<open>width_delta\<close> and
  \<open>height_delta\<close>: the ratio has been computed before without raising, and the text
  written to the standard output is not part of the model.
\<close>

definition resize :: "os \<Rightarrow> Window \<Rightarrow> int \<Rightarrow> os_call list \<times> (error + unit)" where
  "resize os self width_delta =
     (case from_hwnd os (hwnd self) of
        Inl e \<Rightarrow> ([], Inl e)
      | Inr monitor \<Rightarrow>
     (case GetWindowRect os (hwnd self) of
        Inl e \<Rightarrow> ([], Inl e)
      | Inr wr \<Rightarrow>
     (let rect = from_win32_rect wr
      in case ebind (ebind (wh_ratio rect) (int_truediv_float width_delta)) py_int of
           Inl e \<Rightarrow> ([], Inl e)
         | Inr height_delta \<Rightarrow>
             resize_move_to_center_of_rect os self
               (width rect + width_delta) (height rect + height_delta) (work monitor))))"

section \<open>WindowState and WindowStateStore\<close>

record WindowState =
  selected :: bool
  pinned_at :: "pyfloat option"

text \<open>\<open>WindowState()\<close>: the defaults of the dataclass.\<close>

definition WindowState_init :: WindowState where
  "WindowState_init = \<lparr>selected = False, pinned_at = None\<rparr>"

text \<open>
  Dicts and \<open>WindowState\<close> objects are mutable and shared by reference, so they live in a
  heap: \<open>dict_mem\<close> maps the address of a dict to its items in insertion order (a key and
  the address of its \<open>WindowState\<close>), \<open>state_mem\<close> the address of a \<open>WindowState\<close> to
  its fields; \<open>dict_next\<close> and \<open>state_next\<close> are the next free addresses.
\<close>

record heap =
  dict_mem :: "nat \<Rightarrow> (Window \<times> nat) list"
  dict_next :: nat
  state_mem :: "nat \<Rightarrow> WindowState"
  state_next :: nat

text \<open>
  \<open>store: dict[Window, WindowState] = {}\<close> in the class body is an attribute of the
  class: one dict, made when the module is loaded (address \<open>0\<close>), that every instance
  reads through \<open>self.store\<close> until \<open>purge\<close> gives the instance an attribute of its own.
\<close>

definition WindowStateStore_store :: nat where
  "WindowStateStore_store = 0"

definition heap_init :: heap where
  "heap_init = \<lparr>dict_mem = (\<lambda>_. []), dict_next = 1,
                 state_mem = (\<lambda>_. WindowState_init), state_next = 0\<rparr>"

record WindowStateStore =
  store :: "nat option"

definition WindowStateStore_init :: WindowStateStore where
  "WindowStateStore_init = \<lparr>store = None\<rparr>"

definition self_store :: "WindowStateStore \<Rightarrow> nat" where
  "self_store self = (case store self of Some d \<Rightarrow> d | None \<Rightarrow> WindowStateStore_store)"

text \<open>
  The lookup of a key in a dict: an item is the key's when the hashes are equal and the
  stored key \<open>==\<close> the key.
\<close>

fun dict_lookup ::
    "(int list \<Rightarrow> int) \<Rightarrow> (Window \<times> nat) list \<Rightarrow> Window \<Rightarrow> error + nat option" where
  "dict_lookup H [] key = Inr None"
| "dict_lookup H ((k, v) # d) key =
     (if Window_hash H k = Window_hash H key
      then ebind (Window_eq k (VWindow key))
             (\<lambda>b. if b then Inr (Some v) else dict_lookup H d key)
      else dict_lookup H d key)"

text \<open>\<open>d[key] = v\<close>: the value of an existing item is replaced, a new item goes last.\<close>

fun dict_setitem ::
    "(int list \<Rightarrow> int) \<Rightarrow> (Window \<times> nat) list \<Rightarrow> Window \<Rightarrow> nat
      \<Rightarrow> error + (Window \<times> nat) list" where
  "dict_setitem H [] key v = Inr [(key, v)]"
| "dict_setitem H ((k, v') # d) key v =
     (if Window_hash H k = Window_hash H key
      then ebind (Window_eq k (VWindow key))
             (\<lambda>b. if b then Inr ((k, v) # d)
                  else ebind (dict_setitem H d key v) (\<lambda>d'. Inr ((k, v') # d')))
      else ebind (dict_setitem H d key v) (\<lambda>d'. Inr ((k, v') # d')))"

definition dict_setdefault ::
    "(int list \<Rightarrow> int) \<Rightarrow> (Window \<times> nat) list \<Rightarrow> Window \<Rightarrow> nat
      \<Rightarrow> error + ((Window \<times> nat) list \<times> nat)" where
  "dict_setdefault H d key dflt =
     ebind (dict_lookup H d key)
       (\<lambda>r. case r of Some v \<Rightarrow> Inr (d, v) | None \<Rightarrow> Inr (d @ [(key, dflt)], dflt))"

text \<open>
  \<open>self.store.setdefault(key, WindowState())\<close>: the argument \<open>WindowState()\<close> is built
  first, at a fresh address, whether or not the key is there.  The result is the address
  of the key's \<open>WindowState\<close>.
\<close>

definition WindowStateStore_getitem ::
    "(int list \<Rightarrow> int) \<Rightarrow> WindowStateStore \<Rightarrow> Window \<Rightarrow> heap \<Rightarrow> (error + nat) \<times> heap" where
  "WindowStateStore_getitem H self key h =
     (let a = state_next h;
          h1 = h\<lparr>state_mem := (state_mem h)(a := WindowState_init), state_next := Suc a\<rparr>;
          d = self_store self
      in case dict_setdefault H (dict_mem h1 d) key a of
           Inl e \<Rightarrow> (Inl e, h1)
         | Inr (items, v) \<Rightarrow> (Inr v, h1\<lparr>dict_mem := (dict_mem h1)(d := items)\<rparr>))"

text \<open>\<open>window in windows\<close> for a list: some element \<open>==\<close> the window.\<close>

fun list_contains :: "Window list \<Rightarrow> Window \<Rightarrow> error + bool" where
  "list_contains [] w = Inr False"
| "list_contains (e # es) w =
     ebind (Window_eq w (VWindow e)) (\<lambda>b. if b then Inr True else list_contains es w)"

text \<open>
  The dict comprehension of \<open>purge\<close>: the items of the old dict in order, those whose key
  is in \<open>windows\<close> stored into the new dict.
\<close>

fun purge_items ::
    "(int list \<Rightarrow> int) \<Rightarrow> (Window \<times> nat) list \<Rightarrow> Window list \<Rightarrow> (Window \<times> nat) list
      \<Rightarrow> error + (Window \<times> nat) list" where
  "purge_items H [] windows acc = Inr acc"
| "purge_items H ((window, state) # items) windows acc =
     ebind (list_contains windows window)
       (\<lambda>b. if b then ebind (dict_setitem H acc window state)
                         (\<lambda>acc'. purge_items H items windows acc')
            else purge_items H items windows acc)"

text \<open>
  \<open>purge\<close> builds the new dict at a fresh address and makes it the instance's own
  \<open>store\<close> attribute; an exception leaves the instance as it was.
\<close>

definition purge ::
    "(int list \<Rightarrow> int) \<Rightarrow> WindowStateStore \<Rightarrow> Window list \<Rightarrow> heap
      \<Rightarrow> (error + WindowStateStore) \<times> heap" where
  "purge H self windows h =
     (case purge_items H (dict_mem h (self_store self)) windows [] of
        Inl e \<Rightarrow> (Inl e, h)
      | Inr items \<Rightarrow>
          (Inr (self\<lparr>store := Some (dict_next h)\<rparr>),
           h\<lparr>dict_mem := (dict_mem h)(dict_next h := items),
             dict_next := Suc (dict_next h)\<rparr>))"

text \<open>\<open>pin\<close> and \<open>unpin\<close> of the \<open>WindowState\<close> at an address; \<open>now\<close> is \<open>time.time()\<close>.\<close>

definition pin :: "heap \<Rightarrow> nat \<Rightarrow> pyfloat \<Rightarrow> heap" where
  "pin h a now = h\<lparr>state_mem := (state_mem h)(a := (state_mem h a)\<lparr>pinned_at := Some now\<rparr>)\<rparr>"

definition unpin :: "heap \<Rightarrow> nat \<Rightarrow> heap" where
  "unpin h a = h\<lparr>state_mem := (state_mem h)(a := (state_mem h a)\<lparr>pinned_at := None\<rparr>)\<rparr>"

text \<open>The keys of a dict are pairwise unequal: no two have the same \<open>hwnd\<close>.\<close>

definition dict_ok :: "(Window \<times> nat) list \<Rightarrow> bool" where
  "dict_ok d = distinct (map (\<lambda>item. hwnd (fst item)) d)"

text \<open>
  A heap as the interpreter keeps it: every dict has pairwise unequal keys, and every
  address stored in a dict is the address of a \<open>WindowState\<close> that has been allocated.
\<close>

definition heap_ok :: "heap \<Rightarrow> bool" where
  "heap_ok h =
     (\<forall>d. dict_ok (dict_mem h d) \<and> (\<forall>item \<in> set (dict_mem h d). snd item < state_next h))"

section \<open>The background service\<close>

text \<open>
  What one poll reads from the system.  \<open>EnumWindows\<close> is the list of the top-level
  handles it passes to the callback, in order, or \<open>Inl\<close> when the call itself fails.
  \<open>psutil_Process\<close> and \<open>create_time\<close> raise when the process cannot be resolved.
\<close>

record desktop =
  EnumWindows :: "error + int list"
  IsWindowVisible :: "int \<Rightarrow> bool"
  GetWindowText :: "int \<Rightarrow> string"
  GetWindow_OWNER :: "int \<Rightarrow> error + int"
  GetWindowThreadProcessId :: "int \<Rightarrow> int \<times> int"
  getpid :: int
  psutil_Process :: "int \<Rightarrow> error + Process"
  create_time :: "Process \<Rightarrow> error + pyfloat"

text \<open>
  The callback of \<open>_run\<close>: \<open>windows\<close> is the list of the enclosing call, returned with
  the window appended or as it was.
\<close>

definition enum_windows_callback ::
    "desktop \<Rightarrow> int \<Rightarrow> Window list \<Rightarrow> error + Window list" where
  "enum_windows_callback d h windows =
     (if \<not> IsWindowVisible d h then Inr windows
      else let t = GetWindowText d h
      in if t = [] then Inr windows
      else ebind (GetWindow_OWNER d h) (\<lambda>owner.
        if owner \<noteq> 0 then Inr windows
        else let p = snd (GetWindowThreadProcessId d h)
        in if p = getpid d then Inr windows
        else ebind (psutil_Process d p) (\<lambda>pr.
             ebind (create_time d pr) (\<lambda>ct.
             Inr (windows @ [\<lparr>pid = p, proc = pr, hwnd = h, title = t,
                              process_created_at = ct\<rparr>])))))"

text \<open>
  \<open>win32gui.EnumWindows(callback, None)\<close>: an exception of the callback ends the
  enumeration and is raised by the call.
\<close>

fun enumerate_handles :: "desktop \<Rightarrow> int list \<Rightarrow> Window list \<Rightarrow> error + Window list" where
  "enumerate_handles d [] windows = Inr windows"
| "enumerate_handles d (h # hs) windows =
     ebind (enum_windows_callback d h windows) (\<lambda>windows'. enumerate_handles d hs windows')"

record GetWindowsBackgroundService2 =
  windows :: "Window list"

text \<open>
  \<open>_run\<close>: one poll.  \<open>waited\<close> is what \<open>cancellation.wait(1)\<close> returns.  When the poll
  raises, \<open>self.windows\<close> has not been assigned.
\<close>

definition GetWindowsBackgroundService2_run ::
    "desktop \<Rightarrow> GetWindowsBackgroundService2 \<Rightarrow> bool
      \<Rightarrow> error + (GetWindowsBackgroundService2 \<times> bool)" where
  "GetWindowsBackgroundService2_run d self waited =
     ebind (EnumWindows d) (\<lambda>hs.
     ebind (enumerate_handles d hs []) (\<lambda>ws.
     Inr (self\<lparr>windows := ws\<rparr>, waited)))"

text \<open>
  One turn of the loop of \<open>_loop\<close>, as the service sees it: whether the cancellation event
  is set when the loop tests it, the system the poll reads, and the result of the wait.
\<close>

record cycle =
  is_set :: bool
  desk :: desktop
  wait :: bool

text \<open>
  How \<open>_loop\<close> stands after the given cycles: it has returned (\<open>Stopped\<close>), an exception
  has left it (\<open>Raised\<close>), or it is still polling.
\<close>

datatype loop_end = Stopped | Raised error | Polling

fun BackgroundService_loop ::
    "GetWindowsBackgroundService2 \<Rightarrow> cycle list \<Rightarrow> GetWindowsBackgroundService2 \<times> loop_end" where
  "BackgroundService_loop self [] = (self, Polling)"
| "BackgroundService_loop self (c # cs) =
     (if is_set c then (self, Stopped)
      else case GetWindowsBackgroundService2_run (desk c) self (wait c) of
             Inl e \<Rightarrow> (self, Raised e)
           | Inr (self', stop) \<Rightarrow>
               if stop then (self', Stopped) else BackgroundService_loop self' cs)"

section \<open>The consumer\<close>

text \<open>
  What one frame of \<open>main\<close> reads: the system as it is after the win32 calls issued so
  far in the frame, \<open>proc.exe()\<close>, \<open>time.time()\<close> when a row's pin button runs, and which
  buttons of a row (named by the window's handle) are clicked.
\<close>

record frame =
  world :: "os_call list \<Rightarrow> os"
  proc_exe :: "Process \<Rightarrow> error + string"
  time_time :: "int \<Rightarrow> pyfloat"
  pin_clicked :: "int \<Rightarrow> bool"
  center_clicked :: "int \<Rightarrow> bool"
  bigger_clicked :: "int \<Rightarrow> bool"
  smaller_clicked :: "int \<Rightarrow> bool"

text \<open>\<open>if state.pinned_at:\<close> the truth value of an optional float.\<close>

definition truthy :: "pyfloat option \<Rightarrow> bool" where
  "truthy p = (case p of None \<Rightarrow> False | Some x \<Rightarrow> x \<noteq> Finite 0)"

text \<open>A geometry operation run when its button is clicked, after the calls \<open>tr\<close>.\<close>

definition on_click ::
    "bool \<Rightarrow> os_call list \<times> (error + unit) \<Rightarrow> os_call list \<Rightarrow> os_call list \<times> (error + unit)" where
  "on_click clicked operation tr =
     (if clicked then (tr @ fst operation, snd operation) else (tr, Inr ()))"

text \<open>The body of the loop of \<open>main\<close> for one window.\<close>

definition main_window ::
    "(int list \<Rightarrow> int) \<Rightarrow> frame \<Rightarrow> WindowStateStore \<Rightarrow> Window \<Rightarrow> heap \<times> os_call list
      \<Rightarrow> (error + unit) \<times> heap \<times> os_call list" where
  "main_window H f st window s =
     (case s of (h, tr) \<Rightarrow>
      case WindowStateStore_getitem H st window h of
        (Inl e, h1) \<Rightarrow> (Inl e, h1, tr)
      | (Inr a, h1) \<Rightarrow>
     (let i = hwnd window;
          h2 = (if truthy (pinned_at (state_mem h1 a))
                then (if pin_clicked f i then unpin h1 a else h1)
                else (if pin_clicked f i then pin h1 a (time_time f i) else h1))
      in case on_click (center_clicked f i) (center (world f tr) window default_ratio) tr of
           (tr1, Inl e) \<Rightarrow> (Inl e, h2, tr1)
         | (tr1, Inr _) \<Rightarrow>
        (case on_click (bigger_clicked f i) (resize (world f tr1) window 10) tr1 of
           (tr2, Inl e) \<Rightarrow> (Inl e, h2, tr2)
         | (tr2, Inr _) \<Rightarrow>
        (case on_click (smaller_clicked f i) (resize (world f tr2) window (- 10)) tr2 of
           (tr3, Inl e) \<Rightarrow> (Inl e, h2, tr3)
         | (tr3, Inr _) \<Rightarrow>
        (case proc_exe f (proc window) of
           Inl e \<Rightarrow> (Inl e, h2, tr3)
         | Inr _ \<Rightarrow> (Inr (), h2, tr3))))))"

text \<open>\<open>main\<close>: the rows of the published windows, in order; an exception ends the frame.\<close>

fun main_rows ::
    "(int list \<Rightarrow> int) \<Rightarrow> frame \<Rightarrow> WindowStateStore \<Rightarrow> Window list \<Rightarrow> heap \<times> os_call list
      \<Rightarrow> (error + unit) \<times> heap \<times> os_call list" where
  "main_rows H f st [] s = (Inr (), fst s, snd s)"
| "main_rows H f st (w # ws) s =
     (case main_window H f st w s of
        (Inl e, h, tr) \<Rightarrow> (Inl e, h, tr)
      | (Inr _, h, tr) \<Rightarrow> main_rows H f st ws (h, tr))"

definition main ::
    "(int list \<Rightarrow> int) \<Rightarrow> frame \<Rightarrow> WindowStateStore \<Rightarrow> GetWindowsBackgroundService2 \<Rightarrow> heap
      \<Rightarrow> (error + unit) \<times> heap \<times> os_call list" where
  "main H f st service h = main_rows H f st (windows service) (h, [])"

section \<open>Rounding\<close>

lemma ebind_simps:
  "ebind (Inl e) f = Inl e"
  "ebind (Inr x) f = f x"
  by (simp_all add: ebind_def)

lemma bit_length_pos: "0 < n \<Longrightarrow> bit_length n = Suc (bit_length (n div 2))"
  by (subst bit_length.simps) simp

lemma bit_length_nonpos: "n \<le> 0 \<Longrightarrow> bit_length n = 0"
  by (subst bit_length.simps) simp

lemma bit_length_bounds:
  "0 < n \<Longrightarrow> 2 ^ (bit_length n - 1) \<le> n \<and> n < 2 ^ bit_length n"
proof (induction n rule: bit_length.induct)
  case (1 n)
  show ?case
  proof (cases "n div 2 = 0")
    case True
    with "1.prems" have "n = 1" by presburger
    then show ?thesis
      by (simp add: bit_length_pos bit_length_nonpos)
  next
    case False
    with "1.prems" have m: "0 < n div 2" by presburger
    from "1.IH" [OF _ m] "1.prems"
    have ih: "2 ^ (bit_length (n div 2) - 1) \<le> n div 2" "n div 2 < 2 ^ bit_length (n div 2)"
      by simp_all
    have bl: "bit_length n = Suc (bit_length (n div 2))"
      using "1.prems" by (rule bit_length_pos)
    have pos: "0 < bit_length (n div 2)"
      using m by (simp add: bit_length_pos)
    then have "(2::int) ^ bit_length (n div 2) = 2 * 2 ^ (bit_length (n div 2) - 1)"
      by (cases "bit_length (n div 2)") simp_all
    with ih have "2 ^ bit_length (n div 2) \<le> n" "n < 2 * 2 ^ bit_length (n div 2)"
      by presburger+
    then show ?thesis by (simp add: bl)
  qed
qed

lemma rne_cases: "rne x = \<lfloor>x\<rfloor> \<or> rne x = \<lfloor>x\<rfloor> + 1"
  by (simp add: rne_def Let_def)

lemma rne_of_int [simp]: "rne (of_int m) = m"
  by (simp add: rne_def Let_def)

lemma rne_le: "x \<le> of_int m \<Longrightarrow> rne x \<le> m"
proof (cases "x = of_int m")
  case True
  then show ?thesis by simp
next
  case False
  assume "x \<le> of_int m"
  with False have "x < of_int m" by simp
  then have "\<lfloor>x\<rfloor> < m" by (simp add: floor_less_iff)
  with rne_cases [of x] show ?thesis by auto
qed

lemma rne_ge: "of_int m \<le> x \<Longrightarrow> m \<le> rne x"
proof -
  assume "of_int m \<le> x"
  then have "m \<le> \<lfloor>x\<rfloor>" by (simp add: le_floor_iff)
  with rne_cases [of x] show ?thesis by auto
qed

lemma rne_up: "rne z = \<lfloor>z\<rfloor> + 1 \<Longrightarrow> of_int \<lfloor>z\<rfloor> + 1 / 2 \<le> z"
  by (simp add: rne_def Let_def split: if_splits)

lemma rne_down: "rne z = \<lfloor>z\<rfloor> \<Longrightarrow> z \<le> of_int \<lfloor>z\<rfloor> + 1 / 2"
  by (simp add: rne_def Let_def split: if_splits)

lemma rne_abs_le: "\<bar>of_int (rne z)\<bar> \<le> 2 * \<bar>z :: rat\<bar>"
proof -
  have f: "of_int \<lfloor>z\<rfloor> \<le> z" "z < of_int \<lfloor>z\<rfloor> + 1"
    by linarith+
  show ?thesis
  proof (cases "0 \<le> z")
    case True
    then have "0 \<le> \<lfloor>z\<rfloor>" by simp
    then have nn: "(0::rat) \<le> of_int \<lfloor>z\<rfloor>" by simp
    from rne_cases [of z] show ?thesis
    proof
      assume r: "rne z = \<lfloor>z\<rfloor>"
      have "\<bar>rat_of_int (rne z)\<bar> = of_int \<lfloor>z\<rfloor>" using nn r by simp
      with f nn True show ?thesis by linarith
    next
      assume r: "rne z = \<lfloor>z\<rfloor> + 1"
      have "\<bar>rat_of_int (rne z)\<bar> = of_int \<lfloor>z\<rfloor> + 1" using nn r by simp
      with rne_up [OF r] f nn True show ?thesis by linarith
    qed
  next
    case False
    then have "\<lfloor>z\<rfloor> \<le> - 1" by (simp add: floor_le_iff)
    then have np: "of_int \<lfloor>z\<rfloor> \<le> (- 1 :: rat)"
      by (metis of_int_le_iff of_int_minus of_int_1)
    from rne_cases [of z] show ?thesis
    proof
      assume r: "rne z = \<lfloor>z\<rfloor>"
      have "\<bar>rat_of_int (rne z)\<bar> = - of_int \<lfloor>z\<rfloor>" using np r by simp
      with rne_down [OF r] f np False show ?thesis by linarith
    next
      assume r: "rne z = \<lfloor>z\<rfloor> + 1"
      have "\<bar>rat_of_int (rne z)\<bar> = - of_int \<lfloor>z\<rfloor> - 1" using np r by simp
      with f np False show ?thesis by linarith
    qed
  qed
qed

lemma exponent2_lower:
  assumes "0 < a"
  shows "2 powi (exponent2 a) \<le> a"
proof -
  obtain p q where pq: "quotient_of a = (p, q)" by (cases "quotient_of a")
  then have q: "0 < q" and a: "a = of_int p / of_int q"
    by (simp_all add: quotient_of_denom_pos quotient_of_div)
  from assms a q have p: "0 < p"
    by (simp add: zero_less_divide_iff)
  define e where "e = int (bit_length p) - int (bit_length q)"
  have ex: "exponent2 a = (if 2 powi e \<le> a then e else e - 1)"
    by (simp add: exponent2_def pq e_def Let_def)
  have "2 powi (e - 1) \<le> a"
  proof -
    from bit_length_bounds [OF p] have "2 ^ (bit_length p - 1) \<le> p" by simp
    then have pl: "(2::rat) ^ (bit_length p - 1) \<le> of_int p"
      by (metis of_int_le_iff of_int_numeral of_int_power)
    from bit_length_bounds [OF q] have "q < 2 ^ bit_length q" by simp
    then have qu: "of_int q \<le> (2::rat) ^ bit_length q"
      by (metis less_imp_le of_int_le_iff of_int_numeral of_int_power)
    have bp: "0 < bit_length p" using bit_length_pos [OF p] by simp
    obtain b where b: "bit_length p = Suc b"
      using bp by (cases "bit_length p") simp_all
    have "(2::rat) powi (e - 1) = 2 ^ (bit_length p - 1) / 2 ^ bit_length q"
      by (simp add: e_def b power_int_diff)
    also have "\<dots> \<le> of_int p / 2 ^ bit_length q"
      using pl by (simp add: divide_right_mono)
    also have "\<dots> \<le> of_int p / of_int q"
      using qu q p by (simp add: frac_le)
    finally show ?thesis by (simp add: a)
  qed
  then show ?thesis by (simp add: ex)
qed

lemma quantum_le:
  assumes "x \<noteq> 0" "\<bar>x\<bar> < 2 powi (53 + j)" "- 1074 \<le> j"
  shows "quantum x \<le> j"
proof -
  have "2 powi (exponent2 \<bar>x\<bar>) \<le> \<bar>x\<bar>"
    using assms(1) by (intro exponent2_lower) simp
  with assms(2) have "(2::rat) powi (exponent2 \<bar>x\<bar>) < 2 powi (53 + j)" by simp
  then have "exponent2 \<bar>x\<bar> < 53 + j"
    using power_int_increasing [of "53 + j" "exponent2 \<bar>x\<bar>" "2::rat"]
    by (cases "exponent2 \<bar>x\<bar> < 53 + j") simp_all
  with assms(3) show ?thesis by (simp add: quantum_def)
qed

lemma round_val_abs_le: "\<bar>round_val x\<bar> \<le> 2 * \<bar>x\<bar>"
proof (cases "x = 0")
  case True
  then show ?thesis by (simp add: round_val_def)
next
  case False
  define s :: rat where "s = 2 powi quantum x"
  have s: "0 < s" by (simp add: s_def)
  have "\<bar>round_val x\<bar> = \<bar>of_int (rne (x / s))\<bar> * s"
    using False s by (simp add: round_val_def s_def abs_mult)
  also have "\<dots> \<le> (2 * \<bar>x / s\<bar>) * s"
    using rne_abs_le [of "x / s"] s by (intro mult_right_mono) simp_all
  also have "\<dots> = 2 * \<bar>x\<bar>"
    using s by simp
  finally show ?thesis .
qed

lemma round_to_double_Finite:
  assumes "\<bar>x\<bar> < 2 ^ 1023"
  shows "round_to_double x = Finite (round_val x)"
proof -
  have "\<bar>round_val x\<bar> < 2 ^ 1024"
    using round_val_abs_le [of x] assms by simp
  then show ?thesis
    by (simp add: round_to_double_def Let_def abs_less_iff not_le)
qed

lemma round_val_between:
  assumes "of_int lo / 2 ^ k \<le> x" "x \<le> of_int hi / 2 ^ k"
    and "\<bar>x\<bar> < 2 powi (53 - int k)" "k \<le> 1074"
  shows "of_int lo / 2 ^ k \<le> round_val x \<and> round_val x \<le> of_int hi / 2 ^ k"
proof (cases "x = 0")
  case True
  with assms show ?thesis by (simp add: round_val_def)
next
  case False
  have q: "quantum x \<le> - int k"
    using quantum_le [OF False, of "- int k"] assms(3,4) by simp
  define n where "n = nat (- int k - quantum x)"
  define s :: rat where "s = 2 powi quantum x"
  have s: "0 < s" by (simp add: s_def)
  have "(2::rat) powi (- int k) = 2 powi (quantum x + int n)"
    using q by (simp add: n_def)
  also have "\<dots> = s * 2 ^ n"
    by (simp add: power_int_add s_def)
  finally have k: "1 / 2 ^ k = s * 2 ^ n"
    by (simp add: power_int_minus_divide)
  have hi: "of_int hi / 2 ^ k = of_int (hi * 2 ^ n) * s"
    using k by (simp add: field_simps)
  have lo: "of_int lo / 2 ^ k = of_int (lo * 2 ^ n) * s"
    using k by (simp add: field_simps)
  have "x / s \<le> of_int (hi * 2 ^ n)"
    using assms(2) s unfolding hi by (simp add: field_simps)
  then have "rne (x / s) \<le> hi * 2 ^ n" by (rule rne_le)
  then have "rat_of_int (rne (x / s)) \<le> of_int (hi * 2 ^ n)"
    by (simp only: of_int_le_iff)
  then have u: "of_int (rne (x / s)) * s \<le> of_int (hi * 2 ^ n) * s"
    using s by (intro mult_right_mono) simp_all
  have "of_int (lo * 2 ^ n) \<le> x / s"
    using assms(1) s unfolding lo by (simp add: field_simps)
  then have "lo * 2 ^ n \<le> rne (x / s)" by (rule rne_ge)
  then have "rat_of_int (lo * 2 ^ n) \<le> of_int (rne (x / s))"
    by (simp only: of_int_le_iff)
  then have l: "of_int (lo * 2 ^ n) * s \<le> of_int (rne (x / s)) * s"
    using s by (intro mult_right_mono) simp_all
  have "round_val x = of_int (rne (x / s)) * s"
    using False by (simp add: round_val_def s_def)
  with u l show ?thesis by (simp only: hi lo)
qed

lemma round_val_between_int:
  assumes "of_int lo \<le> x" "x \<le> of_int hi" "\<bar>x\<bar> < 2 ^ 53"
  shows "of_int lo \<le> round_val x \<and> round_val x \<le> of_int hi"
  using round_val_between [of lo 0 x hi] assms by simp

lemma round_val_of_int:
  "\<bar>n\<bar> < 2 ^ 53 \<Longrightarrow> round_val (of_int n) = of_int n"
proof -
  assume "\<bar>n\<bar> < 2 ^ 53"
  then have "\<bar>rat_of_int n\<bar> < 2 ^ 53"
    by (metis of_int_abs of_int_less_iff of_int_numeral of_int_power)
  from round_val_between_int [of n "of_int n" n, OF _ _ this]
  show ?thesis by simp
qed

lemma round_val_half:
  "\<bar>n\<bar> < 2 ^ 53 \<Longrightarrow> round_val (of_int n / 2) = of_int n / 2"
proof -
  assume "\<bar>n\<bar> < 2 ^ 53"
  then have "\<bar>rat_of_int n\<bar> < 2 ^ 53"
    by (metis of_int_abs of_int_less_iff of_int_numeral of_int_power)
  then have "\<bar>rat_of_int n / 2\<bar> < 2 powi (53 - int 1)"
    by simp
  from round_val_between [of n 1 "of_int n / 2" n, OF _ _ this]
  show ?thesis by simp
qed

section \<open>Float operations on small values\<close>

lemma rat_abs_less_pow: "\<bar>n\<bar> < 2 ^ k \<Longrightarrow> \<bar>rat_of_int n\<bar> < 2 ^ k"
  by (metis of_int_abs of_int_less_iff of_int_numeral of_int_power)

lemma round_to_double_small:
  "\<bar>x\<bar> < 2 ^ k \<Longrightarrow> k \<le> 1023 \<Longrightarrow> round_to_double x = Finite (round_val x)"
proof -
  assume "\<bar>x\<bar> < 2 ^ k" "k \<le> 1023"
  then have "(2::rat) ^ k \<le> 2 ^ 1023"
    by (intro power_increasing) simp_all
  with \<open>\<bar>x\<bar> < 2 ^ k\<close> have "\<bar>x\<bar> < 2 ^ 1023" by simp
  then show ?thesis by (rule round_to_double_Finite)
qed

lemma float_of_int_exact:
  assumes "\<bar>n\<bar> < 2 ^ 53"
  shows "float_of_int n = Inr (Finite (of_int n))"
proof -
  have a: "\<bar>rat_of_int n\<bar> < 2 ^ 53" using assms by (rule rat_abs_less_pow)
  have "round_to_double (of_int n) = Finite (round_val (of_int n))"
    using a by (rule round_to_double_small) simp
  then show ?thesis
    by (simp add: float_of_int_def round_val_of_int [OF assms])
qed

lemma int_truediv_Finite:
  assumes "b \<noteq> 0" "\<bar>rat_of_int a / of_int b\<bar> < 2 ^ 1023"
  shows "int_truediv a b = Inr (Finite (round_val (of_int a / of_int b)))"
  using assms by (simp add: int_truediv_def round_to_double_Finite)

lemma int_truediv_2_exact:
  assumes "\<bar>n\<bar> < 2 ^ 53"
  shows "int_truediv n 2 = Inr (Finite (of_int n / 2))"
proof -
  have a: "\<bar>rat_of_int n\<bar> < 2 ^ 53" using assms by (rule rat_abs_less_pow)
  then have "\<bar>rat_of_int n / 2\<bar> < 2 ^ 53" by simp
  then have "round_to_double (of_int n / 2) = Finite (round_val (of_int n / 2))"
    by (rule round_to_double_small) simp
  then show ?thesis
    by (simp add: int_truediv_def round_val_half [OF assms])
qed

lemma py_int_Finite [simp]: "py_int (Finite y) = Inr (rat_trunc y)"
  by (simp add: py_int_def)

lemma float_add_Finite [simp]:
  "float_add (Finite a) (Finite b) = round_to_double (a + b)"
  by (simp add: float_add_def)

lemma float_mul_Finite [simp]:
  "float_mul (Finite a) (Finite b) = round_to_double (a * b)"
  by (simp add: float_mul_def)

lemma rat_trunc_between:
  "of_int lo \<le> y \<Longrightarrow> y \<le> of_int hi \<Longrightarrow> lo \<le> rat_trunc y \<and> rat_trunc y \<le> hi"
  unfolding rat_trunc_def by (cases "0 \<le> y") (simp_all, linarith+)

lemma rat_trunc_abs: "\<bar>rat_of_int (rat_trunc y)\<bar> \<le> \<bar>y\<bar>"
proof (cases "0 \<le> y")
  case True
  then have "0 \<le> \<lfloor>y\<rfloor>" by simp
  then have "\<bar>rat_of_int \<lfloor>y\<rfloor>\<bar> = of_int \<lfloor>y\<rfloor>" by simp
  with True show ?thesis by (simp add: rat_trunc_def)
next
  case False
  then have "\<lceil>y\<rceil> \<le> 0" by (simp add: ceiling_le_iff)
  then have "\<bar>rat_of_int \<lceil>y\<rceil>\<bar> = - of_int \<lceil>y\<rceil>" by simp
  moreover have "y \<le> of_int \<lceil>y\<rceil>" by simp
  ultimately show ?thesis using False by (simp add: rat_trunc_def)
qed

text \<open>The sum of an int and a half-integer, both small, is exact.\<close>

lemma int_add_float_half_exact:
  assumes "\<bar>2 * l + n\<bar> < 2 ^ 53" "\<bar>l\<bar> < 2 ^ 53"
  shows "int_add_float l (Finite (of_int n / 2)) = Inr (Finite (of_int l + of_int n / 2))"
proof -
  have e: "rat_of_int l + of_int n / 2 = of_int (2 * l + n) / 2" by simp
  have a: "\<bar>rat_of_int (2 * l + n)\<bar> < 2 ^ 53" using assms(1) by (rule rat_abs_less_pow)
  then have "\<bar>rat_of_int (2 * l + n) / 2\<bar> < 2 ^ 53" by simp
  then have "round_to_double (of_int (2 * l + n) / 2) = Finite (round_val (of_int (2 * l + n) / 2))"
    by (rule round_to_double_small) simp
  then have "round_to_double (rat_of_int l + of_int n / 2) = Finite (of_int l + of_int n / 2)"
    by (simp only: e round_val_half [OF assms(1)])
  then show ?thesis
    by (simp add: int_add_float_def float_of_int_exact [OF assms(2)] ebind_simps)
qed

lemma resize_move_exact:
  assumes "\<bar>left r\<bar> < 2 ^ 51" "\<bar>top' r\<bar> < 2 ^ 51"
    and "\<bar>width r - w\<bar> < 2 ^ 51" "\<bar>height r - h\<bar> < 2 ^ 51"
  defines "l \<equiv> rat_trunc (of_int (left r) + of_int (width r - w) / 2)"
    and "t \<equiv> rat_trunc (of_int (top' r) + of_int (height r - h) / 2)"
  shows "resize_move_to_center_of_rect os self w h r =
    ((if IsIconic os (hwnd self) then [ShowWindow_call (hwnd self) SW_RESTORE] else [])
       @ [MoveWindow_call (hwnd self) l t w h True],
     case MoveWindow os (hwnd self) l t w h True of Some e \<Rightarrow> Inl e | None \<Rightarrow> Inr ())"
proof -
  have w: "\<bar>width r - w\<bar> < 2 ^ 53" using assms(3) by simp
  have h: "\<bar>height r - h\<bar> < 2 ^ 53" using assms(4) by simp
  have l1: "\<bar>left r\<bar> < 2 ^ 53" using assms(1) by simp
  have t1: "\<bar>top' r\<bar> < 2 ^ 53" using assms(2) by simp
  have l2: "\<bar>2 * left r + (width r - w)\<bar> < 2 ^ 53" using assms(1,3) by simp
  have t2: "\<bar>2 * top' r + (height r - h)\<bar> < 2 ^ 53" using assms(2,4) by simp
  show ?thesis
    unfolding resize_move_to_center_of_rect_def l_def t_def
    by (simp add: int_truediv_2_exact [OF w] int_truediv_2_exact [OF h]
        int_add_float_half_exact [OF l2 l1] int_add_float_half_exact [OF t2 t1]
        ebind_simps Let_def del: of_int_diff)
qed


lemma sint32_abs: "\<bar>sint (x :: 32 word)\<bar> \<le> 2 ^ 31"
  using sint_ge [of x] sint_lt [of x] by simp

lemma from_win32_rect_range:
  "\<bar>left (from_win32_rect wr)\<bar> \<le> 2 ^ 31 \<and> \<bar>top' (from_win32_rect wr)\<bar> \<le> 2 ^ 31 \<and>
   \<bar>width (from_win32_rect wr)\<bar> \<le> 2 ^ 32 \<and> \<bar>height (from_win32_rect wr)\<bar> \<le> 2 ^ 32"
proof (cases wr)
  case (RECT_obj l t r b)
  with sint32_abs [of l] sint32_abs [of t] sint32_abs [of r] sint32_abs [of b]
  show ?thesis by (simp add: width_def height_def) linarith
next
  case (RECT_tuple l t r b)
  with sint32_abs [of l] sint32_abs [of t] sint32_abs [of r] sint32_abs [of b]
  show ?thesis by (simp add: width_def height_def) linarith
qed

lemma from_hwnd_range:
  assumes "from_hwnd os i = Inr m"
  shows "\<bar>left (work m)\<bar> \<le> 2 ^ 31 \<and> \<bar>top' (work m)\<bar> \<le> 2 ^ 31 \<and>
         \<bar>width (work m)\<bar> \<le> 2 ^ 32 \<and> \<bar>height (work m)\<bar> \<le> 2 ^ 32"
proof -
  from assms obtain wr where "work m = from_win32_rect wr"
    by (auto simp: from_hwnd_def ebind_def split: sum.splits)
  then show ?thesis using from_win32_rect_range [of wr] by simp
qed

text \<open>The product of a small int and a float of moderate size, truncated.\<close>

lemma int_mul_float_trunc:
  assumes "\<bar>n\<bar> \<le> 2 ^ 32" "\<bar>r\<bar> \<le> 2 ^ 16"
  shows "ebind (int_mul_float n (Finite r)) py_int = Inr (rat_trunc (round_val (of_int n * r)))"
    and "\<bar>rat_trunc (round_val (of_int n * r))\<bar> \<le> 2 ^ 49"
proof -
  have n: "\<bar>n\<bar> < 2 ^ 53" using assms(1) by simp
  have "\<bar>rat_of_int n\<bar> \<le> 2 ^ 32"
    using assms(1) by (metis of_int_abs of_int_le_iff of_int_numeral of_int_power)
  then have "\<bar>rat_of_int n\<bar> * \<bar>r\<bar> \<le> 2 ^ 32 * 2 ^ 16"
    using assms(2) by (intro mult_mono) simp_all
  then have p: "\<bar>rat_of_int n * r\<bar> \<le> 2 ^ 48" by (simp add: abs_mult)
  then have "\<bar>rat_of_int n * r\<bar> < 2 ^ 49" by simp
  then have "round_to_double (of_int n * r) = Finite (round_val (of_int n * r))"
    by (rule round_to_double_small) simp
  then show "ebind (int_mul_float n (Finite r)) py_int = Inr (rat_trunc (round_val (of_int n * r)))"
    by (simp add: int_mul_float_def float_of_int_exact [OF n] ebind_simps)
  have "\<bar>rat_of_int (rat_trunc (round_val (of_int n * r)))\<bar> \<le> 2 ^ 49"
    using rat_trunc_abs [of "round_val (of_int n * r)"] round_val_abs_le [of "of_int n * r"] p
    by simp
  then show "\<bar>rat_trunc (round_val (of_int n * r))\<bar> \<le> 2 ^ 49"
    by (metis of_int_abs of_int_le_iff of_int_numeral of_int_power)
qed

lemma center_exact:
  assumes m: "from_hwnd os (hwnd self) = Inr m" and r: "\<bar>r\<bar> \<le> 2 ^ 16"
  defines "w \<equiv> rat_trunc (round_val (of_int (width (work m)) * r))"
    and "h \<equiv> rat_trunc (round_val (of_int (height (work m)) * r))"
  defines "l \<equiv> rat_trunc (of_int (left (work m)) + of_int (width (work m) - w) / 2)"
    and "t \<equiv> rat_trunc (of_int (top' (work m)) + of_int (height (work m) - h) / 2)"
  shows "center os self (Finite r) =
    ((if IsIconic os (hwnd self) then [ShowWindow_call (hwnd self) SW_RESTORE] else [])
       @ [MoveWindow_call (hwnd self) l t w h True],
     case MoveWindow os (hwnd self) l t w h True of Some e \<Rightarrow> Inl e | None \<Rightarrow> Inr ())"
proof -
  note b = from_hwnd_range [OF m]
  from b have W: "\<bar>width (work m)\<bar> \<le> 2 ^ 32" and H: "\<bar>height (work m)\<bar> \<le> 2 ^ 32" by simp_all
  note cw = int_mul_float_trunc [OF W r, folded w_def]
  note ch = int_mul_float_trunc [OF H r, folded h_def]
  have 1: "\<bar>left (work m)\<bar> < 2 ^ 51" "\<bar>top' (work m)\<bar> < 2 ^ 51" using b by simp_all
  have 2: "\<bar>width (work m) - w\<bar> < 2 ^ 51" using W cw(2) by simp
  have 3: "\<bar>height (work m) - h\<bar> < 2 ^ 51" using H ch(2) by simp
  show ?thesis
    unfolding center_def l_def t_def
    by (simp add: m cw(1) ch(1) resize_move_exact [OF 1 2 3])
qed


lemma default_ratio_eq: "default_ratio = Finite (3602879701896397 / 4503599627370496)"
  unfolding default_ratio_def by code_simp

lemma round_val_1920: "round_val (1920 * (3602879701896397 / 4503599627370496)) = 1536"
  by code_simp

lemma round_val_1200: "round_val (1200 * (3602879701896397 / 4503599627370496)) = 960"
  by code_simp

lemma round_val_ge:
  assumes "of_int lo / 2 ^ k \<le> x" "\<bar>x\<bar> < 2 powi (53 - int k)" "k \<le> 1074"
  shows "of_int lo / 2 ^ k \<le> round_val x"
proof -
  have "x * 2 ^ k \<le> of_int \<lceil>x * 2 ^ k\<rceil>" by simp
  then have "x \<le> of_int \<lceil>x * 2 ^ k\<rceil> / 2 ^ k" by (simp add: field_simps)
  from round_val_between [OF assms(1) this assms(2,3)] show ?thesis by simp
qed

lemma round_val_le:
  assumes "x \<le> of_int hi / 2 ^ k" "\<bar>x\<bar> < 2 powi (53 - int k)" "k \<le> 1074"
  shows "round_val x \<le> of_int hi / 2 ^ k"
proof -
  have "of_int \<lfloor>x * 2 ^ k\<rfloor> \<le> x * 2 ^ k" by simp
  then have "of_int \<lfloor>x * 2 ^ k\<rfloor> / 2 ^ k \<le> x" by (simp add: field_simps)
  from round_val_between [OF this assms(1) assms(2,3)] show ?thesis by simp
qed

text \<open>A quotient of two nonzero 33-bit ints does not round to zero.\<close>

lemma round_val_abs_ge:
  assumes "1 / 2 ^ 32 \<le> \<bar>x\<bar>" "\<bar>x\<bar> < 2 ^ 53"
  shows "1 / 2 ^ 32 \<le> \<bar>round_val x\<bar>"
proof (cases "\<bar>x\<bar> < 2 ^ 21")
  case True
  then have s: "\<bar>x\<bar> < 2 powi (53 - int 32)" by simp
  show ?thesis
  proof (cases "0 \<le> x")
    case True
    with assms(1) have "of_int 1 / 2 ^ 32 \<le> x" by simp
    from round_val_ge [OF this s] show ?thesis by simp
  next
    case False
    with assms(1) have "x \<le> of_int (- 1) / 2 ^ 32" by simp
    from round_val_le [OF this s] show ?thesis by simp
  qed
next
  case False
  then have big: "1 \<le> \<bar>x\<bar>" by simp
  have s: "\<bar>x\<bar> < 2 powi (53 - int 0)" using assms(2) by simp
  show ?thesis
  proof (cases "0 \<le> x")
    case True
    with big have "of_int 1 / 2 ^ 0 \<le> x" by simp
    from round_val_ge [OF this s] have "1 \<le> round_val x" by simp
    then show ?thesis by simp
  next
    case False
    with big have "x \<le> of_int (- 1) / 2 ^ 0" by simp
    from round_val_le [OF this s] have "round_val x \<le> - 1" by simp
    then show ?thesis by simp
  qed
qed

lemma float_truediv_Finite [simp]:
  "b \<noteq> 0 \<Longrightarrow> float_truediv (Finite a) (Finite b) = Inr (round_to_double (a / b))"
  by (simp add: float_truediv_def)

lemma float_truediv_zero [simp]:
  "float_truediv x (Finite 0) = Inl ZeroDivisionError"
  by (simp add: float_truediv_def)

lemma resize_move_general:
  assumes "\<bar>left r\<bar> < 2 ^ 53" "\<bar>top' r\<bar> < 2 ^ 53"
    and "\<bar>width r - w\<bar> < 2 ^ 1000" "\<bar>height r - h\<bar> < 2 ^ 1000"
  defines "l \<equiv> rat_trunc (round_val (of_int (left r) + round_val (of_int (width r - w) / 2)))"
    and "t \<equiv> rat_trunc (round_val (of_int (top' r) + round_val (of_int (height r - h) / 2)))"
  shows "resize_move_to_center_of_rect os self w h r =
    ((if IsIconic os (hwnd self) then [ShowWindow_call (hwnd self) SW_RESTORE] else [])
       @ [MoveWindow_call (hwnd self) l t w h True],
     case MoveWindow os (hwnd self) l t w h True of Some e \<Rightarrow> Inl e | None \<Rightarrow> Inr ())"
proof -
  have gap: "int_truediv n 2 = Inr (Finite (round_val (of_int n / 2))) \<and>
      int_add_float a (Finite (round_val (of_int n / 2)))
        = Inr (Finite (round_val (of_int a + round_val (of_int n / 2))))"
    if n: "\<bar>n\<bar> < 2 ^ 1000" and a: "\<bar>a\<bar> < 2 ^ 53" for n a :: int
  proof -
    have n': "\<bar>rat_of_int n\<bar> < 2 ^ 1000" using n by (rule rat_abs_less_pow)
    then have "\<bar>rat_of_int n / 2\<bar> < 2 ^ 1000" by simp
    then have 1: "round_to_double (of_int n / 2) = Finite (round_val (of_int n / 2))"
      by (rule round_to_double_small) simp
    have "\<bar>round_val (rat_of_int n / 2)\<bar> < 2 ^ 1000"
      using round_val_abs_le [of "rat_of_int n / 2"] n' by simp
    moreover have "\<bar>rat_of_int a\<bar> < 2 ^ 53" using a by (rule rat_abs_less_pow)
    ultimately have "\<bar>rat_of_int a + round_val (of_int n / 2)\<bar> < 2 ^ 53 + 2 ^ 1000"
      by linarith
    also have "\<dots> < (2::rat) ^ 1001" by simp
    finally have 2: "round_to_double (of_int a + round_val (of_int n / 2))
        = Finite (round_val (of_int a + round_val (of_int n / 2)))"
      by (rule round_to_double_small) simp
    show ?thesis
      by (simp add: int_truediv_def 1 int_add_float_def float_of_int_exact [OF a] ebind_simps 2)
  qed
  show ?thesis
    unfolding resize_move_to_center_of_rect_def l_def t_def
    by (simp add: gap [OF assms(3,1)] gap [OF assms(4,2)] ebind_simps del: of_int_diff)
qed

lemma rat_abs_le_pow: "\<bar>n\<bar> \<le> 2 ^ k \<Longrightarrow> \<bar>rat_of_int n\<bar> \<le> 2 ^ k"
  by (metis of_int_abs of_int_le_iff of_int_numeral of_int_power)

lemma int_abs_le_pow: "\<bar>rat_of_int n\<bar> \<le> 2 ^ k \<Longrightarrow> \<bar>n\<bar> \<le> 2 ^ k"
  by (metis of_int_abs of_int_le_iff of_int_numeral of_int_power)

text \<open>The aspect ratio of a rectangle of nonzero 33-bit sides: a nonzero float.\<close>

lemma wh_ratio_nonzero:
  assumes "width r \<noteq> 0" "height r \<noteq> 0" "\<bar>width r\<bar> \<le> 2 ^ 32" "\<bar>height r\<bar> \<le> 2 ^ 32"
  defines "q \<equiv> round_val (of_int (width r) / of_int (height r))"
  shows "wh_ratio r = Inr (Finite q)" and "1 / 2 ^ 32 \<le> \<bar>q\<bar>"
proof -
  define W H :: rat where "W = of_int (width r)" and "H = of_int (height r)"
  have W: "1 \<le> \<bar>W\<bar>" "\<bar>W\<bar> \<le> 2 ^ 32"
    using assms(1) rat_abs_le_pow [OF assms(3)]
    by (simp_all add: W_def flip: of_int_abs)
  have H: "1 \<le> \<bar>H\<bar>" "\<bar>H\<bar> \<le> 2 ^ 32"
    using assms(2) rat_abs_le_pow [OF assms(4)]
    by (simp_all add: H_def flip: of_int_abs)
  have "\<bar>W\<bar> / \<bar>H\<bar> \<le> 2 ^ 32 / 1"
    using W H by (intro frac_le) simp_all
  then have up: "\<bar>W / H\<bar> \<le> 2 ^ 32" by simp
  have "1 / 2 ^ 32 \<le> \<bar>W\<bar> / \<bar>H\<bar>"
    using W H by (intro frac_le) simp_all
  then have lo: "1 / 2 ^ 32 \<le> \<bar>W / H\<bar>" by simp
  from up have "\<bar>W / H\<bar> < 2 ^ 1023" by simp
  then show "wh_ratio r = Inr (Finite q)"
    using assms(2) unfolding wh_ratio_def q_def W_def H_def
    by (intro int_truediv_Finite)
  from up have "\<bar>W / H\<bar> < 2 ^ 53" by simp
  from round_val_abs_ge [OF lo this] show "1 / 2 ^ 32 \<le> \<bar>q\<bar>"
    by (simp add: q_def W_def H_def)
qed

lemma resize_exact:
  assumes m: "from_hwnd os (hwnd self) = Inr m"
    and wr: "GetWindowRect os (hwnd self) = Inr wr"
    and nz: "width (from_win32_rect wr) \<noteq> 0" "height (from_win32_rect wr) \<noteq> 0"
    and d: "\<bar>d\<bar> \<le> 2 ^ 31"
  defines "rect \<equiv> from_win32_rect wr"
  defines "q \<equiv> round_val (of_int (width rect) / of_int (height rect))"
  defines "dh \<equiv> rat_trunc (round_val (of_int d / q))"
  defines "w \<equiv> width rect + d" and "h \<equiv> height rect + dh"
  defines "l \<equiv> rat_trunc (round_val (of_int (left (work m))
                 + round_val (of_int (width (work m) - w) / 2)))"
    and "t \<equiv> rat_trunc (round_val (of_int (top' (work m))
                 + round_val (of_int (height (work m) - h) / 2)))"
  shows "resize os self d =
    ((if IsIconic os (hwnd self) then [ShowWindow_call (hwnd self) SW_RESTORE] else [])
       @ [MoveWindow_call (hwnd self) l t w h True],
     case MoveWindow os (hwnd self) l t w h True of Some e \<Rightarrow> Inl e | None \<Rightarrow> Inr ())"
    and "wh_ratio rect = Inr (Finite q)" and "q \<noteq> 0"
proof -
  note rb = from_win32_rect_range [of wr, folded rect_def]
  note mb = from_hwnd_range [OF m]
  from rb have W: "\<bar>width rect\<bar> \<le> 2 ^ 32" and H: "\<bar>height rect\<bar> \<le> 2 ^ 32" by simp_all
  note q = wh_ratio_nonzero [OF nz [folded rect_def] W H, folded q_def]
  from q(2) show q0: "q \<noteq> 0" by auto
  show "wh_ratio rect = Inr (Finite q)" by (rule q(1))
  have d53: "\<bar>d\<bar> < 2 ^ 53" using d by simp
  have "\<bar>rat_of_int d\<bar> / \<bar>q\<bar> \<le> 2 ^ 31 / (1 / 2 ^ 32)"
    using rat_abs_le_pow [OF d] q(2) by (intro frac_le) simp_all
  then have dq: "\<bar>rat_of_int d / q\<bar> \<le> 2 ^ 63" by simp
  then have "\<bar>rat_of_int d / q\<bar> < 2 ^ 64" by simp
  then have fin: "round_to_double (of_int d / q) = Finite (round_val (of_int d / q))"
    by (rule round_to_double_small) simp
  have dh_eq: "ebind (ebind (wh_ratio rect) (int_truediv_float d)) py_int = Inr dh"
    by (simp add: q(1) ebind_simps int_truediv_float_def float_of_int_exact [OF d53] q0 fin dh_def)
  have "\<bar>rat_of_int dh\<bar> \<le> 2 ^ 64"
    using rat_trunc_abs [of "round_val (of_int d / q)"] round_val_abs_le [of "of_int d / q"] dq
    by (simp add: dh_def)
  then have dh: "\<bar>dh\<bar> \<le> 2 ^ 64" by (rule int_abs_le_pow)
  have 1: "\<bar>left (work m)\<bar> < 2 ^ 53" "\<bar>top' (work m)\<bar> < 2 ^ 53" using mb by simp_all
  have "\<bar>width (work m) - w\<bar> \<le> 2 ^ 34" using mb W d unfolding w_def by simp linarith
  then have 2: "\<bar>width (work m) - w\<bar> < 2 ^ 1000" by simp
  have "\<bar>height (work m) - h\<bar> \<le> 2 ^ 65" using mb H dh unfolding h_def by simp linarith
  then have 3: "\<bar>height (work m) - h\<bar> < 2 ^ 1000" by simp
  show "resize os self d =
    ((if IsIconic os (hwnd self) then [ShowWindow_call (hwnd self) SW_RESTORE] else [])
       @ [MoveWindow_call (hwnd self) l t w h True],
     case MoveWindow os (hwnd self) l t w h True of Some e \<Rightarrow> Inl e | None \<Rightarrow> Inr ())"
  proof -
    have "resize os self d = resize_move_to_center_of_rect os self w h (work m)"
      unfolding resize_def
      by (simp add: m wr Let_def dh_eq [unfolded rect_def] w_def h_def rect_def)
    then show ?thesis
      by (simp only: resize_move_general [OF 1 2 3] l_def t_def)
  qed
qed


lemma round_val_numeral_exact [simp]:
  "\<bar>numeral k :: int\<bar> < 2 ^ 53 \<Longrightarrow> round_val (numeral k) = numeral k"
  using round_val_of_int [of "numeral k"] by simp

lemma round_val_numeral_half_exact [simp]:
  "\<bar>numeral k :: int\<bar> < 2 ^ 53 \<Longrightarrow> round_val (numeral k / 2) = numeral k / 2"
  using round_val_half [of "numeral k"] by simp

lemma round_val_0 [simp]: "round_val 0 = 0"
  by (simp add: round_val_def)

lemma rat_trunc_of_int [simp]: "rat_trunc (of_int n) = n"
  by (simp add: rat_trunc_def)

lemma rat_trunc_numeral [simp]: "rat_trunc (numeral n) = numeral n"
  by (simp add: rat_trunc_def)

lemma round_val_4_3: "round_val (4 / 3) = 6004799503160661 / 4503599627370496"
  by code_simp

lemma round_val_m10_q: "round_val (- (45035996273704960 / 6004799503160661)) = - (15 / 2)"
  by code_simp

lemma floor_ceiling_atoms:
  "\<lceil>- (15 / 2) :: rat\<rceil> = - 7" "\<lfloor>- (15 / 2) :: rat\<rfloor> = - 8" "\<lfloor>907 / 2 :: rat\<rfloor> = 453"
  by code_simp+

section \<open>Dicts and lists of windows\<close>

lemma dict_lookup_find:
  "dict_lookup H d key = Inr (map_option snd (find (\<lambda>item. hwnd (fst item) = hwnd key) d))"
  by (induction d) (auto simp: Window_hash_def ebind_simps)

lemma list_contains_iff:
  "list_contains ws w = Inr (\<exists>e \<in> set ws. hwnd e = hwnd w)"
  by (induction ws) (auto simp: ebind_simps)

lemma dict_setitem_new:
  "hwnd key \<notin> (\<lambda>item. hwnd (fst item)) ` set d \<Longrightarrow> dict_setitem H d key v = Inr (d @ [(key, v)])"
  by (induction d) (auto simp: Window_hash_def ebind_simps)

lemma purge_items_filter:
  "distinct (map (\<lambda>item. hwnd (fst item)) (acc @ items)) \<Longrightarrow>
   purge_items H items ws acc
     = Inr (acc @ filter (\<lambda>item. \<exists>e \<in> set ws. hwnd e = hwnd (fst item)) items)"
proof (induction items arbitrary: acc)
  case Nil
  then show ?case by simp
next
  case (Cons it items)
  obtain k v where it: "it = (k, v)" by (cases it)
  from Cons.prems have new: "hwnd k \<notin> (\<lambda>item. hwnd (fst item)) ` set acc"
    by (auto simp: it)
  from Cons.prems have d1: "distinct (map (\<lambda>item. hwnd (fst item)) ((acc @ [(k, v)]) @ items))"
    by (auto simp: it)
  from Cons.prems have d2: "distinct (map (\<lambda>item. hwnd (fst item)) (acc @ items))"
    by (auto simp: it)
  show ?case
    by (simp add: it list_contains_iff ebind_simps dict_setitem_new [OF new]
        Cons.IH [OF d1] Cons.IH [OF d2])
qed

lemma find_filter_keep:
  "(\<And>y. Q y \<Longrightarrow> P y) \<Longrightarrow> find Q (filter P xs) = find Q xs"
  by (induction xs) auto



lemma find_append_old:
  "find Q xs = Some x \<Longrightarrow> find Q (xs @ ys) = Some x"
  by (induction xs) (auto split: if_splits)

lemma find_None_keys:
  "find (\<lambda>item. f item = c) xs = None \<longleftrightarrow> c \<notin> f ` set xs"
  by (induction xs) auto

text \<open>What a lookup in the store does, by whether the key is there.\<close>

lemma getitem_new:
  assumes "dict_lookup H (dict_mem h (self_store self)) key = Inr None"
  shows "WindowStateStore_getitem H self key h =
    (Inr (state_next h),
     h\<lparr>state_mem := (state_mem h)(state_next h := WindowState_init),
       state_next := Suc (state_next h),
       dict_mem := (dict_mem h)(self_store self :=
          dict_mem h (self_store self) @ [(key, state_next h)])\<rparr>)"
  using assms
  by (simp add: WindowStateStore_getitem_def Let_def dict_setdefault_def ebind_simps)

lemma getitem_old:
  assumes "dict_lookup H (dict_mem h (self_store self)) key = Inr (Some a)"
  shows "WindowStateStore_getitem H self key h =
    (Inr a,
     h\<lparr>state_mem := (state_mem h)(state_next h := WindowState_init),
       state_next := Suc (state_next h)\<rparr>)"
  using assms
  by (simp add: WindowStateStore_getitem_def Let_def dict_setdefault_def ebind_simps)

lemma getitem_total: "\<exists>a h'. WindowStateStore_getitem H self key h = (Inr a, h')"
proof (cases "find (\<lambda>item. hwnd (fst item) = hwnd key) (dict_mem h (self_store self))")
  case None
  then have "dict_lookup H (dict_mem h (self_store self)) key = Inr None"
    by (simp add: dict_lookup_find)
  from getitem_new [OF this] show ?thesis by blast
next
  case (Some it)
  then have "dict_lookup H (dict_mem h (self_store self)) key = Inr (Some (snd it))"
    by (simp add: dict_lookup_find)
  from getitem_old [OF this] show ?thesis by blast
qed




lemma purge_eq:
  assumes "dict_ok (dict_mem h (self_store self))"
  shows "purge H self L h =
    (Inr (self\<lparr>store := Some (dict_next h)\<rparr>),
     h\<lparr>dict_mem := (dict_mem h)(dict_next h :=
          filter (\<lambda>item. \<exists>e \<in> set L. hwnd e = hwnd (fst item)) (dict_mem h (self_store self))),
       dict_next := Suc (dict_next h)\<rparr>)"
  using assms purge_items_filter [of "[]" "dict_mem h (self_store self)" H L]
  by (simp add: purge_def dict_ok_def)

lemma heap_ok_purge:
  assumes "heap_ok h" "purge H self L h = (r, h')"
  shows "heap_ok h'"
proof -
  from assms(1) have ok: "dict_ok (dict_mem h (self_store self))"
    by (simp add: heap_ok_def)
  from assms(1) show ?thesis
    using assms(2) unfolding purge_eq [OF ok]
    by (auto simp: heap_ok_def dict_ok_def distinct_map_filter split: if_splits) force+
qed



lemma find_append_case:
  "find P (xs @ ys) = (case find P xs of None \<Rightarrow> find P ys | Some x \<Rightarrow> Some x)"
  by (induction xs) auto

section \<open>The callback and the enumeration\<close>

text \<open>The callback on one handle, by what the system says about it.\<close>

lemma callback_filtered:
  assumes "\<not> (IsWindowVisible d h \<and> GetWindowText d h \<noteq> [] \<and> GetWindow_OWNER d h = Inr 0 \<and>
      snd (GetWindowThreadProcessId d h) \<noteq> getpid d)"
    and "IsWindowVisible d h \<and> GetWindowText d h \<noteq> [] \<longrightarrow> (\<exists>ow. GetWindow_OWNER d h = Inr ow)"
  shows "enum_windows_callback d h ws = Inr ws"
  using assms by (auto simp: enum_windows_callback_def Let_def ebind_simps)

lemma callback_kept:
  assumes "IsWindowVisible d h" "GetWindowText d h \<noteq> []" "GetWindow_OWNER d h = Inr 0"
    and "snd (GetWindowThreadProcessId d h) \<noteq> getpid d"
    and "psutil_Process d (snd (GetWindowThreadProcessId d h)) = Inr pr"
    and "create_time d pr = Inr ct"
  shows "enum_windows_callback d h ws =
    Inr (ws @ [\<lparr>pid = snd (GetWindowThreadProcessId d h), proc = pr, hwnd = h,
                 title = GetWindowText d h, process_created_at = ct\<rparr>])"
  using assms by (simp add: enum_windows_callback_def Let_def ebind_simps)

lemma callback_unresolved:
  assumes "IsWindowVisible d h" "GetWindowText d h \<noteq> []" "GetWindow_OWNER d h = Inr 0"
    and "snd (GetWindowThreadProcessId d h) \<noteq> getpid d"
    and "psutil_Process d (snd (GetWindowThreadProcessId d h)) = Inl e \<or>
         (\<exists>pr. psutil_Process d (snd (GetWindowThreadProcessId d h)) = Inr pr \<and> create_time d pr = Inl e)"
  shows "enum_windows_callback d h ws = Inl e"
  using assms by (auto simp: enum_windows_callback_def Let_def ebind_simps)

lemma callback_owner_raises:
  assumes "IsWindowVisible d h" "GetWindowText d h \<noteq> []" "GetWindow_OWNER d h = Inl e"
  shows "enum_windows_callback d h ws = Inl e"
  using assms by (simp add: enum_windows_callback_def Let_def ebind_simps)

lemma enumerate_handles_append:
  "enumerate_handles d (hs1 @ hs2) ws =
     ebind (enumerate_handles d hs1 ws) (enumerate_handles d hs2)"
  by (induction hs1 arbitrary: ws) (auto simp: ebind_def split: sum.splits)


lemma enumerate_handles_ok:
  assumes "\<forall>h \<in> set hs.
      (IsWindowVisible d h \<and> GetWindowText d h \<noteq> [] \<longrightarrow> (\<exists>ow. GetWindow_OWNER d h = Inr ow)) \<and>
      (IsWindowVisible d h \<and> GetWindowText d h \<noteq> [] \<and> GetWindow_OWNER d h = Inr 0 \<and>
       snd (GetWindowThreadProcessId d h) \<noteq> getpid d \<longrightarrow>
         (\<exists>pr ct. psutil_Process d (snd (GetWindowThreadProcessId d h)) = Inr pr \<and>
                  create_time d pr = Inr ct))"
  shows "\<exists>new. enumerate_handles d hs ws = Inr (ws @ new) \<and>
      map hwnd new = filter (\<lambda>h. IsWindowVisible d h \<and> GetWindowText d h \<noteq> [] \<and>
          GetWindow_OWNER d h = Inr 0 \<and> snd (GetWindowThreadProcessId d h) \<noteq> getpid d) hs \<and>
      (\<forall>w \<in> set new. title w = GetWindowText d (hwnd w) \<and>
          pid w = snd (GetWindowThreadProcessId d (hwnd w)) \<and>
          psutil_Process d (pid w) = Inr (proc w) \<and>
          create_time d (proc w) = Inr (process_created_at w))"
  using assms
proof (induction hs arbitrary: ws)
  case Nil
  then show ?case by simp
next
  case (Cons h hs)
  let ?P = "\<lambda>h. IsWindowVisible d h \<and> GetWindowText d h \<noteq> [] \<and>
          GetWindow_OWNER d h = Inr 0 \<and> snd (GetWindowThreadProcessId d h) \<noteq> getpid d"
  from Cons.prems have rest: "\<forall>h \<in> set hs.
      (IsWindowVisible d h \<and> GetWindowText d h \<noteq> [] \<longrightarrow> (\<exists>ow. GetWindow_OWNER d h = Inr ow)) \<and>
      (IsWindowVisible d h \<and> GetWindowText d h \<noteq> [] \<and> GetWindow_OWNER d h = Inr 0 \<and>
       snd (GetWindowThreadProcessId d h) \<noteq> getpid d \<longrightarrow>
         (\<exists>pr ct. psutil_Process d (snd (GetWindowThreadProcessId d h)) = Inr pr \<and>
                  create_time d pr = Inr ct))"
    by simp
  show ?case
  proof (cases "?P h")
    case True
    with Cons.prems obtain pr ct where
      r: "psutil_Process d (snd (GetWindowThreadProcessId d h)) = Inr pr" "create_time d pr = Inr ct"
      by auto
    let ?w = "\<lparr>pid = snd (GetWindowThreadProcessId d h), proc = pr, hwnd = h,
                 title = GetWindowText d h, process_created_at = ct\<rparr>"
    from True r have c: "enum_windows_callback d h ws = Inr (ws @ [?w])"
      by (intro callback_kept) simp_all
    from Cons.IH [OF rest, of "ws @ [?w]"] obtain new where
      n: "enumerate_handles d hs (ws @ [?w]) = Inr ((ws @ [?w]) @ new)"
        "map hwnd new = filter ?P hs"
        "\<forall>w \<in> set new. title w = GetWindowText d (hwnd w) \<and>
          pid w = snd (GetWindowThreadProcessId d (hwnd w)) \<and>
          psutil_Process d (pid w) = Inr (proc w) \<and>
          create_time d (proc w) = Inr (process_created_at w)"
      by blast
    show ?thesis
      using True r n by (intro exI [of _ "?w # new"]) (auto simp: c ebind_simps)
  next
    case False
    from Cons.prems have "IsWindowVisible d h \<and> GetWindowText d h \<noteq> [] \<longrightarrow> (\<exists>ow. GetWindow_OWNER d h = Inr ow)"
      by simp
    with False have c: "enum_windows_callback d h ws = Inr ws"
      by (intro callback_filtered) simp_all
    from Cons.IH [OF rest, of ws] obtain new where
      n: "enumerate_handles d hs ws = Inr (ws @ new)"
        "map hwnd new = filter ?P hs"
        "\<forall>w \<in> set new. title w = GetWindowText d (hwnd w) \<and>
          pid w = snd (GetWindowThreadProcessId d (hwnd w)) \<and>
          psutil_Process d (pid w) = Inr (proc w) \<and>
          create_time d (proc w) = Inr (process_created_at w)"
      by blast
    show ?thesis
      using False n by (intro exI [of _ new]) (auto simp: c ebind_simps)
  qed
qed


lemma run_eq:
  "GetWindowsBackgroundService2_run d self waited =
     (case ebind (EnumWindows d) (\<lambda>hs. enumerate_handles d hs []) of
        Inl e \<Rightarrow> Inl e
      | Inr ws \<Rightarrow> Inr (self\<lparr>windows := ws\<rparr>, waited))"
  by (simp add: GetWindowsBackgroundService2_run_def ebind_def split: sum.splits)

lemma run_raises_indep:
  "GetWindowsBackgroundService2_run d self waited = Inl e \<Longrightarrow>
   GetWindowsBackgroundService2_run d self' waited' = Inl e"
  by (simp add: run_eq split: sum.splits)

lemma run_returns_waited:
  "GetWindowsBackgroundService2_run d self waited = Inr (self', b) \<Longrightarrow> b = waited"
  by (auto simp: run_eq split: sum.splits)

section \<open>Exceptions of the geometry operations\<close>

lemma resize_monitor_fails:
  "from_hwnd os (hwnd self) = Inl e \<Longrightarrow> resize os self d = ([], Inl e)"
  by (simp add: resize_def)

lemma center_monitor_fails:
  "from_hwnd os (hwnd self) = Inl e \<Longrightarrow> center os self ratio = ([], Inl e)"
  by (simp add: center_def)

lemma resize_rect_fails:
  "from_hwnd os (hwnd self) = Inr m \<Longrightarrow> GetWindowRect os (hwnd self) = Inl e \<Longrightarrow>
   resize os self d = ([], Inl e)"
  by (simp add: resize_def)

lemma resize_height_zero:
  "from_hwnd os (hwnd self) = Inr m \<Longrightarrow> GetWindowRect os (hwnd self) = Inr wr \<Longrightarrow>
   height (from_win32_rect wr) = 0 \<Longrightarrow> resize os self d = ([], Inl ZeroDivisionError)"
  by (simp add: resize_def wh_ratio_def int_truediv_def ebind_simps Let_def)

text \<open>An exception of a clicked operation leaves the row and the frame.\<close>

lemma main_window_bigger_raises:
  assumes "\<not> center_clicked f (hwnd self)" "bigger_clicked f (hwnd self)"
    and "resize (world f tr) self 10 = (cs, Inl e)"
  shows "\<exists>h'. main_window H f st self (h, tr) = (Inl e, h', tr @ cs)"
proof -
  obtain a h1 where g: "WindowStateStore_getitem H st self h = (Inr a, h1)"
    using getitem_total by blast
  show ?thesis
    using assms by (simp add: main_window_def g Let_def on_click_def)
qed

lemma main_window_center_raises:
  assumes "center_clicked f (hwnd self)"
    and "center (world f tr) self default_ratio = (cs, Inl e)"
  shows "\<exists>h'. main_window H f st self (h, tr) = (Inl e, h', tr @ cs)"
proof -
  obtain a h1 where g: "WindowStateStore_getitem H st self h = (Inr a, h1)"
    using getitem_total by blast
  show ?thesis
    using assms by (simp add: main_window_def g Let_def on_click_def)
qed

lemma main_window_smaller_raises:
  assumes "\<not> center_clicked f (hwnd self)" "\<not> bigger_clicked f (hwnd self)"
    and "smaller_clicked f (hwnd self)"
    and "resize (world f tr) self (- 10) = (cs, Inl e)"
  shows "\<exists>h'. main_window H f st self (h, tr) = (Inl e, h', tr @ cs)"
proof -
  obtain a h1 where g: "WindowStateStore_getitem H st self h = (Inr a, h1)"
    using getitem_total by blast
  show ?thesis
    using assms by (simp add: main_window_def g Let_def on_click_def)
qed

text \<open>The same, whatever ran before the operation in the row without raising.\<close>

lemma main_window_second_raises:
  assumes "on_click (center_clicked f (hwnd self))
             (center (world f tr) self default_ratio) tr = (tr1, Inr ())"
    and "on_click (bigger_clicked f (hwnd self)) (resize (world f tr1) self 10) tr1
           = (tr2, Inl e)"
  shows "\<exists>h'. main_window H f st self (h, tr) = (Inl e, h', tr2)"
proof -
  obtain a h1 where g: "WindowStateStore_getitem H st self h = (Inr a, h1)"
    using getitem_total by blast
  show ?thesis
    using assms by (simp add: main_window_def g Let_def)
qed

lemma main_window_third_raises:
  assumes "on_click (center_clicked f (hwnd self))
             (center (world f tr) self default_ratio) tr = (tr1, Inr ())"
    and "on_click (bigger_clicked f (hwnd self)) (resize (world f tr1) self 10) tr1
           = (tr2, Inr ())"
    and "on_click (smaller_clicked f (hwnd self)) (resize (world f tr2) self (- 10)) tr2
           = (tr3, Inl e)"
  shows "\<exists>h'. main_window H f st self (h, tr) = (Inl e, h', tr3)"
proof -
  obtain a h1 where g: "WindowStateStore_getitem H st self h = (Inr a, h1)"
    using getitem_total by blast
  show ?thesis
    using assms by (simp add: main_window_def g Let_def)
qed

lemma main_rows_raises:
  "main_window H f st self s = (Inl e, h', tr') \<Longrightarrow>
   main_rows H f st (self # ws) s = (Inl e, h', tr')"
  by simp

lemma main_rows_after:
  "main_rows H f st before s = (Inr (), h, tr) \<Longrightarrow>
   main_rows H f st (before @ ws) s = main_rows H f st ws (h, tr)"
proof (induction before arbitrary: s)
  case Nil
  then show ?case by simp
next
  case (Cons w before)
  obtain r h1 tr1 where m: "main_window H f st w s = (r, h1, tr1)"
    by (cases "main_window H f st w s")
  show ?case
  proof (cases r)
    case (Inl e)
    with Cons.prems m show ?thesis by simp
  next
    case (Inr u)
    with Cons.prems m have "main_rows H f st before (h1, tr1) = (Inr (), h, tr)" by simp
    from Cons.IH [OF this] m Inr show ?thesis by simp
  qed
qed

section \<open>Window identity\<close>

text \<open>
  C1: two windows are \<open>==\<close> exactly when their \<open>hwnd\<close> are equal, whatever their \<open>pid\<close>,
  \<open>proc\<close>, \<open>title\<close> and \<open>process_created_at\<close>; windows of equal \<open>hwnd\<close> have equal hashes
  and stand for each other as the key looked up in a dict, as a key stored in a dict, and
  as the element looked for in a list.
\<close>

theorem Window_eq_iff_hwnd:
  "Window_eq a (VWindow b) = Inr (hwnd a = hwnd b) \<and>
   (hwnd a = hwnd b \<longrightarrow>
      Window_hash H a = Window_hash H b \<and>
      dict_lookup H d a = dict_lookup H d b \<and>
      dict_lookup H (d1 @ (a, v) # d2) k = dict_lookup H (d1 @ (b, v) # d2) k \<and>
      list_contains ws a = list_contains ws b)"
  by (auto simp: Window_hash_def dict_lookup_find list_contains_iff find_append_case
      split: option.splits)

theorem Window_eq_iff_hwnd_witness:
  "let a = \<lparr>pid = 1, proc = Process 1, hwnd = 7, title = ''a'', process_created_at = Finite 0\<rparr>;
       b = \<lparr>pid = 2, proc = Process 2, hwnd = 7, title = ''b'', process_created_at = Finite 1\<rparr>;
       c = \<lparr>pid = 1, proc = Process 1, hwnd = 8, title = ''a'', process_created_at = Finite 0\<rparr>
   in hwnd a = hwnd b \<and> title a \<noteq> title b \<and>
      Window_eq a (VWindow b) = Inr True \<and>
      Window_eq a (VWindow c) = Inr False \<and>
      Window_hash sum_list a = Window_hash sum_list b"
  (is "Let ?a (\<lambda>_. Let ?b _)")
  using Window_eq_iff_hwnd [of ?a ?b sum_list "[]" "[]" 0 "[]" ?b "[]"]
  by (simp add: Let_def)

text \<open>
  C9: for every window, \<open>==\<close> against a value that is not a \<open>Window\<close> raises
  (\<open>NotImplementedError\<close>): it never returns a boolean.
\<close>

theorem Window_eq_non_window_raises:
  "(\<nexists>w. v = VWindow w) \<Longrightarrow> Window_eq self v = Inl NotImplementedError"
  by (cases v) simp_all

theorem Window_eq_non_window_raises_witness:
  "(\<nexists>w. VInt 7 = VWindow w) \<and>
   Window_eq \<lparr>pid = 1, proc = Process 1, hwnd = 7, title = ''a'',
     process_created_at = Finite 0\<rparr> (VInt 7) = Inl NotImplementedError"
  using Window_eq_non_window_raises [of "VInt 7"] by simp

section \<open>The geometry of center\<close>

text \<open>
  C4: the centering computation.  For a monitor work area \<open>work m\<close> (as win32 reports it)
  and a fill ratio \<open>r\<close> (any float of magnitude at most \<open>2 ^ 16\<close>), \<open>center\<close> restores the
  window when it is minimized and then issues one \<open>MoveWindow\<close> whose width and height
  are the work area's width and height times the ratio (the product as the float
  multiplication rounds it), truncated to an integer, and whose left and top are
  \<open>work.left + (work.width - width) / 2\<close> and \<open>work.top + (work.height - height) / 2\<close>,
  truncated to an integer (these two are exact: the float arithmetic does not round
  them).  For the work area \<open>(0, 0, 1920, 1200)\<close> and the default ratio \<open>0.8\<close> the size
  is \<open>(1536, 960)\<close> and the top-left \<open>(192, 120)\<close>.
\<close>

theorem center_target:
  assumes "from_hwnd os (hwnd self) = Inr m" and "\<bar>r\<bar> \<le> 2 ^ 16"
  shows "\<exists>w h l t.
    center os self (Finite r) =
      ((if IsIconic os (hwnd self) then [ShowWindow_call (hwnd self) SW_RESTORE] else [])
         @ [MoveWindow_call (hwnd self) l t w h True],
       case MoveWindow os (hwnd self) l t w h True of Some e \<Rightarrow> Inl e | None \<Rightarrow> Inr ()) \<and>
    w = rat_trunc (round_val (of_int (width (work m)) * r)) \<and>
    h = rat_trunc (round_val (of_int (height (work m)) * r)) \<and>
    l = rat_trunc (of_int (left (work m)) + of_int (width (work m) - w) / 2) \<and>
    t = rat_trunc (of_int (top' (work m)) + of_int (height (work m) - h) / 2) \<and>
    (work m = \<lparr>left = 0, top' = 0, right = 1920, bottom = 1200\<rparr> \<and> Finite r = default_ratio
       \<longrightarrow> w = 1536 \<and> h = 960 \<and> l = 192 \<and> t = 120)"
proof -
  define w where "w = rat_trunc (round_val (of_int (width (work m)) * r))"
  define h where "h = rat_trunc (round_val (of_int (height (work m)) * r))"
  define l where "l = rat_trunc (of_int (left (work m)) + of_int (width (work m) - w) / 2)"
  define t where "t = rat_trunc (of_int (top' (work m)) + of_int (height (work m) - h) / 2)"
  have c: "center os self (Finite r) =
      ((if IsIconic os (hwnd self) then [ShowWindow_call (hwnd self) SW_RESTORE] else [])
         @ [MoveWindow_call (hwnd self) l t w h True],
       case MoveWindow os (hwnd self) l t w h True of Some e \<Rightarrow> Inl e | None \<Rightarrow> Inr ())"
    unfolding l_def t_def w_def h_def by (rule center_exact [OF assms])
  have ex: "work m = \<lparr>left = 0, top' = 0, right = 1920, bottom = 1200\<rparr> \<and> Finite r = default_ratio
       \<longrightarrow> w = 1536 \<and> h = 960 \<and> l = 192 \<and> t = 120"
  proof (intro impI, elim conjE)
    assume wm: "work m = \<lparr>left = 0, top' = 0, right = 1920, bottom = 1200\<rparr>"
      and rr: "Finite r = default_ratio"
    from rr have r: "r = 3602879701896397 / 4503599627370496"
      by (simp only: default_ratio_eq pyfloat.inject)
    have W: "rat_of_int (width (work m)) = 1920" and H: "rat_of_int (height (work m)) = 1200"
      by (simp_all add: wm width_def height_def)
    have w: "w = 1536" and h: "h = 960"
      unfolding w_def h_def W H r round_val_1920 round_val_1200
      by (simp_all add: rat_trunc_def)
    have "l = 192" "t = 120"
      unfolding l_def t_def w h
      by (simp_all add: wm width_def height_def rat_trunc_def)
    with w h show "w = 1536 \<and> h = 960 \<and> l = 192 \<and> t = 120" by simp
  qed
  from c w_def h_def l_def t_def ex show ?thesis by blast
qed

theorem center_target_witness:
  "let os = \<lparr>MonitorFromWindow = (\<lambda>h. Inr 1),
             GetMonitorInfo_Work = (\<lambda>m. Inr (RECT_tuple 0 0 1920 1200)),
             GetWindowRect = (\<lambda>h. Inr (RECT_tuple 100 100 1100 600)),
             IsIconic = (\<lambda>h. False),
             MoveWindow = (\<lambda>h l t w hh b. None)\<rparr>;
       self = \<lparr>pid = 1, proc = Process 1, hwnd = 7, title = ''a'', process_created_at = Finite 0\<rparr>
   in from_hwnd os (hwnd self)
        = Inr \<lparr>work = \<lparr>left = 0, top' = 0, right = 1920, bottom = 1200\<rparr>\<rparr> \<and>
      default_ratio = Finite (3602879701896397 / 4503599627370496) \<and>
      \<bar>3602879701896397 / 4503599627370496 :: rat\<bar> \<le> 2 ^ 16 \<and>
      center os self default_ratio = ([MoveWindow_call 7 192 120 1536 960 True], Inr ())"
  (is "Let ?os (\<lambda>_. Let ?w _)")
proof -
  let ?m = "\<lparr>work = \<lparr>left = 0, top' = 0, right = 1920, bottom = 1200\<rparr>\<rparr>"
  have m: "from_hwnd ?os (hwnd ?w) = Inr ?m"
    by (simp add: from_hwnd_def ebind_simps)
  have r: "\<bar>3602879701896397 / 4503599627370496 :: rat\<bar> \<le> 2 ^ 16" by simp
  from center_target [OF m r] m r show ?thesis
    by (auto simp: default_ratio_eq Let_def)
qed

text \<open>
  C10: for a monitor work area of non-negative width and height and a fill ratio between
  \<open>0\<close> and \<open>1\<close>, the rectangle that \<open>center\<close> moves the window to lies within the work
  area.
\<close>

theorem center_within_work_area:
  assumes "from_hwnd os (hwnd self) = Inr m"
    and "0 \<le> width (work m)" "0 \<le> height (work m)" "0 \<le> r" "r \<le> 1"
  shows "\<exists>l t w h.
    fst (center os self (Finite r)) =
      (if IsIconic os (hwnd self) then [ShowWindow_call (hwnd self) SW_RESTORE] else [])
        @ [MoveWindow_call (hwnd self) l t w h True] \<and>
    left (work m) \<le> l \<and> top' (work m) \<le> t \<and>
    l + w \<le> right (work m) \<and> t + h \<le> bottom (work m)"
proof -
  have r16: "\<bar>r\<bar> \<le> 2 ^ 16" using assms(4,5) by simp
  note b = from_hwnd_range [OF assms(1)]
  have size: "0 \<le> rat_trunc (round_val (of_int n * r)) \<and> rat_trunc (round_val (of_int n * r)) \<le> n"
    if n: "0 \<le> n" "\<bar>n\<bar> \<le> 2 ^ 32" for n
  proof -
    have n0: "(0::rat) \<le> of_int n" using n(1) by simp
    have lo: "rat_of_int 0 \<le> of_int n * r" using n0 assms(4) by simp
    have hi: "of_int n * r \<le> rat_of_int n"
      using n0 assms(5) by (simp add: mult_left_le)
    have "\<bar>rat_of_int n\<bar> < 2 ^ 53"
      using n(2) by (intro rat_abs_less_pow) simp
    with lo hi have "\<bar>of_int n * r\<bar> < 2 ^ 53" by simp
    from round_val_between_int [OF lo hi this] rat_trunc_between [of 0 _ n]
    show ?thesis by simp
  qed
  have gap: "a \<le> rat_trunc (of_int a + of_int d / 2) \<and> rat_trunc (of_int a + of_int d / 2) + (n - d) \<le> a + n"
    if "0 \<le> d" for a d n :: int
  proof -
    have d: "(0::rat) \<le> of_int d" using that by simp
    have "rat_of_int a \<le> of_int a + of_int d / 2" using d by simp
    moreover have "rat_of_int a + of_int d / 2 \<le> of_int (a + d)" using d by simp
    ultimately show ?thesis
      using rat_trunc_between [of a "of_int a + of_int d / 2" "a + d"] by simp
  qed
  define w where "w = rat_trunc (round_val (of_int (width (work m)) * r))"
  define h where "h = rat_trunc (round_val (of_int (height (work m)) * r))"
  have w: "0 \<le> width (work m) - w" using size [OF assms(2)] b by (simp add: w_def)
  have h: "0 \<le> height (work m) - h" using size [OF assms(3)] b by (simp add: h_def)
  from gap [OF w, of "left (work m)" "width (work m)"] gap [OF h, of "top' (work m)" "height (work m)"]
  show ?thesis
    unfolding center_exact [OF assms(1) r16] w_def h_def
    by (simp add: width_def height_def)
qed


theorem center_within_work_area_witness:
  "let os = \<lparr>MonitorFromWindow = (\<lambda>h. Inr 1),
             GetMonitorInfo_Work = (\<lambda>m. Inr (RECT_tuple (- 1920) 0 0 1081)),
             GetWindowRect = (\<lambda>h. Inr (RECT_tuple 100 100 1100 600)),
             IsIconic = (\<lambda>h. True),
             MoveWindow = (\<lambda>h l t w hh b. None)\<rparr>;
       self = \<lparr>pid = 1, proc = Process 1, hwnd = 7, title = ''a'', process_created_at = Finite 0\<rparr>
   in from_hwnd os (hwnd self)
        = Inr \<lparr>work = \<lparr>left = - 1920, top' = 0, right = 0, bottom = 1081\<rparr>\<rparr> \<and>
      (\<exists>l t w h.
         fst (center os self (Finite (1 / 2)))
           = [ShowWindow_call 7 SW_RESTORE, MoveWindow_call 7 l t w h True] \<and>
         - 1920 \<le> l \<and> 0 \<le> t \<and> l + w \<le> 0 \<and> t + h \<le> 1081)"
  (is "Let ?os (\<lambda>_. Let ?w _)")
proof -
  let ?m = "\<lparr>work = \<lparr>left = - 1920, top' = 0, right = 0, bottom = 1081\<rparr>\<rparr>"
  have m: "from_hwnd ?os (hwnd ?w) = Inr ?m"
    by (simp add: from_hwnd_def ebind_simps)
  have wd: "0 \<le> width (work ?m)" and ht: "0 \<le> height (work ?m)"
    by (simp_all add: width_def height_def)
  from center_within_work_area [OF m wd ht, of "1 / 2"] m show ?thesis
    by (simp add: Let_def)
qed

section \<open>The store\<close>




text \<open>
  C3: after \<open>purge(L)\<close> every key of the store is in \<open>L\<close>; a key that was in the store
  and is in \<open>L\<close> keeps its \<open>WindowState\<close> (the same address, and no \<open>WindowState\<close> is
  changed); a window that is not in \<open>L\<close> is not a key any more.
\<close>

theorem purge_subset_and_retain:
  assumes "heap_ok h"
  shows "\<exists>self' h'.
    purge H self L h = (Inr self', h') \<and> heap_ok h' \<and> state_mem h' = state_mem h \<and>
    (\<forall>item \<in> set (dict_mem h' (self_store self')). list_contains L (fst item) = Inr True) \<and>
    (\<forall>k a. list_contains L k = Inr True \<and>
        dict_lookup H (dict_mem h (self_store self)) k = Inr (Some a) \<longrightarrow>
        dict_lookup H (dict_mem h' (self_store self')) k = Inr (Some a)) \<and>
    (\<forall>k. list_contains L k = Inr False \<longrightarrow>
        dict_lookup H (dict_mem h' (self_store self')) k = Inr None)"
proof -
  let ?P = "\<lambda>item. \<exists>e \<in> set L. hwnd e = hwnd (fst item)"
  let ?self' = "self\<lparr>store := Some (dict_next h)\<rparr>"
  let ?h' = "h\<lparr>dict_mem := (dict_mem h)(dict_next h := filter ?P (dict_mem h (self_store self))),
       dict_next := Suc (dict_next h)\<rparr>"
  from assms have ok: "dict_ok (dict_mem h (self_store self))"
    by (simp add: heap_ok_def)
  have p: "purge H self L h = (Inr ?self', ?h')" by (rule purge_eq [OF ok])
  have d: "dict_mem ?h' (self_store ?self') = filter ?P (dict_mem h (self_store self))"
    by (simp add: self_store_def)
  have 1: "heap_ok ?h'" using assms p by (rule heap_ok_purge)
  have 2: "\<forall>item \<in> set (dict_mem ?h' (self_store ?self')). list_contains L (fst item) = Inr True"
    unfolding d by (simp add: list_contains_iff)
  have 3: "dict_lookup H (dict_mem ?h' (self_store ?self')) k = Inr (Some a)"
    if "list_contains L k = Inr True"
      and "dict_lookup H (dict_mem h (self_store self)) k = Inr (Some a)" for k a
  proof -
    from that(1) have "\<And>y. hwnd (fst y) = hwnd k \<Longrightarrow> ?P y"
      by (simp add: list_contains_iff)
    then have "find (\<lambda>item. hwnd (fst item) = hwnd k) (filter ?P (dict_mem h (self_store self)))
        = find (\<lambda>item. hwnd (fst item) = hwnd k) (dict_mem h (self_store self))"
      by (rule find_filter_keep)
    with that(2) show ?thesis unfolding d by (simp add: dict_lookup_find)
  qed
  have 4: "dict_lookup H (dict_mem ?h' (self_store ?self')) k = Inr None"
    if "list_contains L k = Inr False" for k
  proof -
    from that have "hwnd k \<notin> (\<lambda>item. hwnd (fst item)) ` set (filter ?P (dict_mem h (self_store self)))"
      by (auto simp: list_contains_iff)
    then show ?thesis unfolding d by (simp add: dict_lookup_find find_None_keys)
  qed
  from p 1 2 3 4 show ?thesis by (intro exI [of _ ?self'] exI [of _ ?h']) simp
qed

theorem purge_subset_and_retain_witness:
  "let a = \<lparr>pid = 1, proc = Process 1, hwnd = 7, title = ''a'', process_created_at = Finite 0\<rparr>;
       b = \<lparr>pid = 2, proc = Process 2, hwnd = 7, title = ''b'', process_created_at = Finite 1\<rparr>;
       c = \<lparr>pid = 3, proc = Process 3, hwnd = 9, title = ''c'', process_created_at = Finite 2\<rparr>;
       h = \<lparr>dict_mem = (\<lambda>_. [])(0 := [(a, 0), (c, 1)]), dict_next = 1,
            state_mem = (\<lambda>_. WindowState_init)
              (0 := \<lparr>selected = False, pinned_at = Some (Finite 5)\<rparr>),
            state_next = 2\<rparr>
   in heap_ok h \<and>
      purge sum_list WindowStateStore_init [b] h
        = (Inr \<lparr>store = Some 1\<rparr>,
           h\<lparr>dict_mem := (dict_mem h)(1 := [(a, 0)]), dict_next := 2\<rparr>) \<and>
      list_contains [b] a = Inr True \<and>
      list_contains [b] c = Inr False \<and>
      dict_lookup sum_list (dict_mem h 0) a = Inr (Some 0) \<and>
      dict_lookup sum_list [(a, 0)] a = Inr (Some 0) \<and>
      dict_lookup sum_list [(a, 0)] c = Inr None"
  (is "Let ?a (\<lambda>_. Let ?b (\<lambda>_. Let ?c _))")
proof -
  let ?h = "\<lparr>dict_mem = (\<lambda>_. [])(0 := [(?a, 0), (?c, 1)]), dict_next = 1,
            state_mem = (\<lambda>_. WindowState_init)
              (0 := \<lparr>selected = False, pinned_at = Some (Finite 5)\<rparr>),
            state_next = 2\<rparr>"
  have ok: "heap_ok ?h"
    by (simp add: heap_ok_def dict_ok_def WindowState_init_def)
  from purge_subset_and_retain [OF ok, of sum_list WindowStateStore_init "[?b]"] ok
  show ?thesis
    by (simp add: purge_def self_store_def WindowStateStore_init_def WindowStateStore_store_def
        ebind_simps Window_hash_def Let_def)
qed

section \<open>The geometry of resize\<close>

text \<open>
  C5, as the code has it: for a window rectangle of nonzero width and height and a
  \<open>width_delta\<close> of magnitude at most \<open>2 ^ 31\<close>, \<open>height_delta\<close> is
  \<open>width_delta / aspect_ratio\<close> (both divisions as floats) truncated towards zero, and
  \<open>resize\<close> moves the window to the size
  \<open>(width + width_delta, height + height_delta)\<close>.  For a 1000 by 500 rectangle and
  \<open>width_delta = 10\<close> the ratio is \<open>2\<close>, \<open>height_delta\<close> is \<open>5\<close> and the size
  \<open>(1010, 505)\<close>.
\<close>

theorem resize_target:
  assumes "from_hwnd os (hwnd self) = Inr m"
    and "GetWindowRect os (hwnd self) = Inr wr"
    and "width (from_win32_rect wr) \<noteq> 0" "height (from_win32_rect wr) \<noteq> 0"
    and "\<bar>width_delta\<bar> \<le> 2 ^ 31"
  shows "\<exists>q height_delta l t.
    wh_ratio (from_win32_rect wr) = Inr (Finite q) \<and> q \<noteq> 0 \<and>
    height_delta = rat_trunc (round_val (of_int width_delta / q)) \<and>
    fst (resize os self width_delta) =
      (if IsIconic os (hwnd self) then [ShowWindow_call (hwnd self) SW_RESTORE] else [])
        @ [MoveWindow_call (hwnd self) l t
             (width (from_win32_rect wr) + width_delta)
             (height (from_win32_rect wr) + height_delta) True] \<and>
    (width (from_win32_rect wr) = 1000 \<and> height (from_win32_rect wr) = 500 \<and> width_delta = 10
       \<longrightarrow> q = 2 \<and> height_delta = 5 \<and>
           width (from_win32_rect wr) + width_delta = 1010 \<and>
           height (from_win32_rect wr) + height_delta = 505)"
proof -
  define q where "q = round_val (of_int (width (from_win32_rect wr)) / of_int (height (from_win32_rect wr)))"
  define dh where "dh = rat_trunc (round_val (of_int width_delta / q))"
  note e = resize_exact [OF assms, folded q_def, folded dh_def]
  have "q = 2 \<and> dh = 5"
    if "width (from_win32_rect wr) = 1000" "height (from_win32_rect wr) = 500" "width_delta = 10"
  proof -
    have q: "q = 2" using that by (simp add: q_def)
    then show ?thesis using that by (simp add: dh_def)
  qed
  with e dh_def show ?thesis by auto
qed


theorem resize_target_witness:
  "let os = \<lparr>MonitorFromWindow = (\<lambda>h. Inr 1),
             GetMonitorInfo_Work = (\<lambda>m. Inr (RECT_tuple 0 0 1920 1200)),
             GetWindowRect = (\<lambda>h. Inr (RECT_tuple 100 100 1100 600)),
             IsIconic = (\<lambda>h. False),
             MoveWindow = (\<lambda>h l t w hh b. None)\<rparr>;
       self = \<lparr>pid = 1, proc = Process 1, hwnd = 7, title = ''a'', process_created_at = Finite 0\<rparr>
   in from_hwnd os (hwnd self)
        = Inr \<lparr>work = \<lparr>left = 0, top' = 0, right = 1920, bottom = 1200\<rparr>\<rparr> \<and>
      GetWindowRect os (hwnd self) = Inr (RECT_tuple 100 100 1100 600) \<and>
      width (from_win32_rect (RECT_tuple 100 100 1100 600)) = 1000 \<and>
      height (from_win32_rect (RECT_tuple 100 100 1100 600)) = 500 \<and>
      \<bar>10 :: int\<bar> \<le> 2 ^ 31 \<and>
      (\<exists>l t. fst (resize os self 10) = [MoveWindow_call 7 l t 1010 505 True])"
  (is "Let ?os (\<lambda>_. Let ?w _)")
proof -
  let ?m = "\<lparr>work = \<lparr>left = 0, top' = 0, right = 1920, bottom = 1200\<rparr>\<rparr>"
  have m: "from_hwnd ?os (hwnd ?w) = Inr ?m"
    by (simp add: from_hwnd_def ebind_simps)
  have wr: "GetWindowRect ?os (hwnd ?w) = Inr (RECT_tuple 100 100 1100 600)" by simp
  have W: "width (from_win32_rect (RECT_tuple 100 100 1100 600)) = 1000"
    and H: "height (from_win32_rect (RECT_tuple 100 100 1100 600)) = 500"
    by (simp_all add: width_def height_def)
  have nz: "width (from_win32_rect (RECT_tuple 100 100 1100 600)) \<noteq> 0"
    "height (from_win32_rect (RECT_tuple 100 100 1100 600)) \<noteq> 0"
    by (simp_all add: width_def height_def)
  have d: "\<bar>10 :: int\<bar> \<le> 2 ^ 31" by simp
  from resize_target [OF m wr nz d] W H obtain l t where
    "fst (resize ?os ?w 10) = [MoveWindow_call 7 l t 1010 505 True]"
    by auto
  with m wr W H show ?thesis unfolding Let_def by auto
qed

text \<open>
  C5 as stated fails: \<open>height_delta\<close> is not the floor of the quotient.  For a 400 by 300
  rectangle and \<open>width_delta = -10\<close> the quotient is \<open>-7.5\<close>; \<open>resize\<close> makes the height
  \<open>293\<close> (\<open>height_delta = -7\<close>), where the floor would make it \<open>292\<close>.
\<close>

theorem resize_floor_counterexample:
  "let os = \<lparr>MonitorFromWindow = (\<lambda>h. Inr 1),
             GetMonitorInfo_Work = (\<lambda>m. Inr (RECT_tuple 0 0 1920 1200)),
             GetWindowRect = (\<lambda>h. Inr (RECT_tuple 100 100 500 400)),
             IsIconic = (\<lambda>h. False),
             MoveWindow = (\<lambda>h l t w hh b. None)\<rparr>;
       self = \<lparr>pid = 1, proc = Process 1, hwnd = 7, title = ''a'', process_created_at = Finite 0\<rparr>;
       rect = from_win32_rect (RECT_tuple 100 100 500 400);
       q = 6004799503160661 / 4503599627370496
   in width rect = 400 \<and> height rect = 300 \<and>
      wh_ratio rect = Inr (Finite q) \<and>
      round_val (of_int (- 10) / q) = - (15 / 2) \<and>
      resize os self (- 10) = ([MoveWindow_call 7 765 453 390 293 True], Inr ()) \<and>
      height rect + \<lfloor>round_val (of_int (- 10) / q)\<rfloor> = 292"
  (is "Let ?os (\<lambda>_. Let ?w _)")
proof -
  let ?m = "\<lparr>work = \<lparr>left = 0, top' = 0, right = 1920, bottom = 1200\<rparr>\<rparr>"
  have m: "from_hwnd ?os (hwnd ?w) = Inr ?m"
    by (simp add: from_hwnd_def ebind_simps)
  have wr: "GetWindowRect ?os (hwnd ?w) = Inr (RECT_tuple 100 100 500 400)" by simp
  have W: "width (from_win32_rect (RECT_tuple 100 100 500 400)) = 400"
    and H: "height (from_win32_rect (RECT_tuple 100 100 500 400)) = 300"
    by (simp_all add: width_def height_def)
  have nz: "width (from_win32_rect (RECT_tuple 100 100 500 400)) \<noteq> 0"
    "height (from_win32_rect (RECT_tuple 100 100 500 400)) \<noteq> 0"
    by (simp_all add: width_def height_def)
  have d: "\<bar>- 10 :: int\<bar> \<le> 2 ^ 31" by simp
  note e = resize_exact [OF m wr nz d]
  show ?thesis
    using e(1,2)
    by (simp add: W H width_def height_def round_val_4_3 round_val_m10_q rat_trunc_def
        floor_ceiling_atoms Let_def)
qed

section \<open>The discovery poll and the polling loop\<close>

text \<open>
  C6, as the code has it: when \<open>EnumWindows\<close> passes the handles \<open>hs\<close>, the owner
  query returns for every one of them that is visible and titled, and every one that is
  visible, titled, without an owner and of another process has a process that can be
  resolved, the poll publishes the windows of exactly those handles, in the order of the
  enumeration, each with the title, the pid, the process and its creation time.  A
  handle that passes the four tests and whose process cannot be resolved is not skipped,
  and neither is a visible, titled handle whose owner query raises: the exception ends
  the enumeration and leaves \<open>_run\<close> before \<open>self.windows\<close> is assigned, and it leaves
  \<open>_loop\<close>, which polls no more.
\<close>

theorem poll_publishes_or_raises:
  assumes "EnumWindows d = Inr (hs @ rest)"
    and "\<forall>h \<in> set hs.
      (IsWindowVisible d h \<and> GetWindowText d h \<noteq> [] \<longrightarrow> (\<exists>ow. GetWindow_OWNER d h = Inr ow)) \<and>
      (IsWindowVisible d h \<and> GetWindowText d h \<noteq> [] \<and> GetWindow_OWNER d h = Inr 0 \<and>
       snd (GetWindowThreadProcessId d h) \<noteq> getpid d \<longrightarrow>
         (\<exists>pr ct. psutil_Process d (snd (GetWindowThreadProcessId d h)) = Inr pr \<and>
                  create_time d pr = Inr ct))"
  shows
    "(rest = [] \<longrightarrow>
        (\<exists>ws. GetWindowsBackgroundService2_run d self waited = Inr (self\<lparr>windows := ws\<rparr>, waited) \<and>
           map hwnd ws = filter (\<lambda>h. IsWindowVisible d h \<and> GetWindowText d h \<noteq> [] \<and>
              GetWindow_OWNER d h = Inr 0 \<and> snd (GetWindowThreadProcessId d h) \<noteq> getpid d) hs \<and>
           (\<forall>w \<in> set ws. title w = GetWindowText d (hwnd w) \<and>
              pid w = snd (GetWindowThreadProcessId d (hwnd w)) \<and>
              psutil_Process d (pid w) = Inr (proc w) \<and>
              create_time d (proc w) = Inr (process_created_at w)))) \<and>
     (\<forall>h tl e. rest = h # tl \<and>
        IsWindowVisible d h \<and> GetWindowText d h \<noteq> [] \<and> GetWindow_OWNER d h = Inr 0 \<and>
        snd (GetWindowThreadProcessId d h) \<noteq> getpid d \<and>
        (psutil_Process d (snd (GetWindowThreadProcessId d h)) = Inl e \<or>
         (\<exists>pr. psutil_Process d (snd (GetWindowThreadProcessId d h)) = Inr pr \<and>
               create_time d pr = Inl e)) \<longrightarrow>
        GetWindowsBackgroundService2_run d self waited = Inl e \<and>
        BackgroundService_loop self (\<lparr>is_set = False, desk = d, wait = waited\<rparr> # cs)
          = (self, Raised e)) \<and>
     (\<forall>h tl e. rest = h # tl \<and>
        IsWindowVisible d h \<and> GetWindowText d h \<noteq> [] \<and> GetWindow_OWNER d h = Inl e \<longrightarrow>
        GetWindowsBackgroundService2_run d self waited = Inl e \<and>
        BackgroundService_loop self (\<lparr>is_set = False, desk = d, wait = waited\<rparr> # cs)
          = (self, Raised e))"
proof -
  from enumerate_handles_ok [OF assms(2), of "[]"] obtain new where
    n: "enumerate_handles d hs [] = Inr new"
      "map hwnd new = filter (\<lambda>h. IsWindowVisible d h \<and> GetWindowText d h \<noteq> [] \<and>
          GetWindow_OWNER d h = Inr 0 \<and> snd (GetWindowThreadProcessId d h) \<noteq> getpid d) hs"
      "\<forall>w \<in> set new. title w = GetWindowText d (hwnd w) \<and>
          pid w = snd (GetWindowThreadProcessId d (hwnd w)) \<and>
          psutil_Process d (pid w) = Inr (proc w) \<and>
          create_time d (proc w) = Inr (process_created_at w)"
    by auto
  have a: "\<exists>ws. GetWindowsBackgroundService2_run d self waited = Inr (self\<lparr>windows := ws\<rparr>, waited) \<and>
           map hwnd ws = filter (\<lambda>h. IsWindowVisible d h \<and> GetWindowText d h \<noteq> [] \<and>
              GetWindow_OWNER d h = Inr 0 \<and> snd (GetWindowThreadProcessId d h) \<noteq> getpid d) hs \<and>
           (\<forall>w \<in> set ws. title w = GetWindowText d (hwnd w) \<and>
              pid w = snd (GetWindowThreadProcessId d (hwnd w)) \<and>
              psutil_Process d (pid w) = Inr (proc w) \<and>
              create_time d (proc w) = Inr (process_created_at w))"
    if "rest = []"
    using that n assms(1)
    by (intro exI [of _ new]) (auto simp: run_eq ebind_simps)
  have b: "GetWindowsBackgroundService2_run d self waited = Inl e \<and>
        BackgroundService_loop self (\<lparr>is_set = False, desk = d, wait = waited\<rparr> # cs)
          = (self, Raised e)"
    if "rest = h # tl"
      and "IsWindowVisible d h" "GetWindowText d h \<noteq> []" "GetWindow_OWNER d h = Inr 0"
        "snd (GetWindowThreadProcessId d h) \<noteq> getpid d"
      and "psutil_Process d (snd (GetWindowThreadProcessId d h)) = Inl e \<or>
         (\<exists>pr. psutil_Process d (snd (GetWindowThreadProcessId d h)) = Inr pr \<and>
               create_time d pr = Inl e)"
    for h tl e
  proof -
    from that(2-6) have "enum_windows_callback d h new = Inl e"
      by (rule callback_unresolved)
    then have "enumerate_handles d (hs @ h # tl) [] = Inl e"
      by (simp add: enumerate_handles_append n(1) ebind_simps)
    with assms(1) that(1) have "GetWindowsBackgroundService2_run d self waited = Inl e"
      by (simp add: run_eq ebind_simps)
    then show ?thesis by simp
  qed
  have c: "GetWindowsBackgroundService2_run d self waited = Inl e \<and>
        BackgroundService_loop self (\<lparr>is_set = False, desk = d, wait = waited\<rparr> # cs)
          = (self, Raised e)"
    if "rest = h # tl"
      and "IsWindowVisible d h" "GetWindowText d h \<noteq> []" "GetWindow_OWNER d h = Inl e"
    for h tl e
  proof -
    from that(2-4) have "enum_windows_callback d h new = Inl e"
      by (rule callback_owner_raises)
    then have "enumerate_handles d (hs @ h # tl) [] = Inl e"
      by (simp add: enumerate_handles_append n(1) ebind_simps)
    with assms(1) that(1) have "GetWindowsBackgroundService2_run d self waited = Inl e"
      by (simp add: run_eq ebind_simps)
    then show ?thesis by simp
  qed
  from a b c show ?thesis by blast
qed

theorem poll_publishes_or_raises_witness:
  "let d = \<lparr>EnumWindows = Inr [5, 6, 8],
            IsWindowVisible = (\<lambda>h. h \<noteq> 6),
            GetWindowText = (\<lambda>h. ''a''),
            GetWindow_OWNER = (\<lambda>h. Inr 0),
            GetWindowThreadProcessId = (\<lambda>h. (0, h * 10)),
            getpid = 1,
            psutil_Process = (\<lambda>p. if p = 80 then Inl psutil_Error else Inr (Process p)),
            create_time = (\<lambda>p. Inr (Finite 0))\<rparr>
   in EnumWindows d = Inr ([5, 6] @ [8]) \<and>
      IsWindowVisible d 8 \<and> GetWindowText d 8 \<noteq> [] \<and> GetWindow_OWNER d 8 = Inr 0 \<and>
      snd (GetWindowThreadProcessId d 8) \<noteq> getpid d \<and>
      psutil_Process d (snd (GetWindowThreadProcessId d 8)) = Inl psutil_Error \<and>
      GetWindowsBackgroundService2_run d \<lparr>windows = []\<rparr> False = Inl psutil_Error \<and>
      BackgroundService_loop \<lparr>windows = []\<rparr> [\<lparr>is_set = False, desk = d, wait = False\<rparr>]
        = (\<lparr>windows = []\<rparr>, Raised psutil_Error)"
  (is "Let ?d _")
proof -
  have e: "EnumWindows ?d = Inr ([5, 6] @ [8])" by simp
  have ok: "\<forall>h \<in> set [5, 6].
      (IsWindowVisible ?d h \<and> GetWindowText ?d h \<noteq> [] \<longrightarrow> (\<exists>ow. GetWindow_OWNER ?d h = Inr ow)) \<and>
      (IsWindowVisible ?d h \<and> GetWindowText ?d h \<noteq> [] \<and> GetWindow_OWNER ?d h = Inr 0 \<and>
       snd (GetWindowThreadProcessId ?d h) \<noteq> getpid ?d \<longrightarrow>
         (\<exists>pr ct. psutil_Process ?d (snd (GetWindowThreadProcessId ?d h)) = Inr pr \<and>
                  create_time ?d pr = Inr ct))"
    by simp
  from poll_publishes_or_raises [OF e ok, of "\<lparr>windows = []\<rparr>" False "[]"] e
  show ?thesis by (simp add: Let_def)
qed

text \<open>
  C6 as stated fails: of two windows, the first of a process that cannot be resolved, the
  poll publishes neither; it raises, and the loop ends with the exception although a
  further cycle is at hand and no cancellation is requested.
\<close>

theorem unresolved_process_counterexample:
  "let d = \<lparr>EnumWindows = Inr [5, 6],
            IsWindowVisible = (\<lambda>h. True),
            GetWindowText = (\<lambda>h. ''a''),
            GetWindow_OWNER = (\<lambda>h. Inr 0),
            GetWindowThreadProcessId = (\<lambda>h. (0, h * 10)),
            getpid = 1,
            psutil_Process = (\<lambda>p. if p = 50 then Inl psutil_Error else Inr (Process p)),
            create_time = (\<lambda>p. Inr (Finite 0))\<rparr>;
       c = \<lparr>is_set = False, desk = d, wait = False\<rparr>
   in psutil_Process d (snd (GetWindowThreadProcessId d 5)) = Inl psutil_Error \<and>
      psutil_Process d (snd (GetWindowThreadProcessId d 6)) = Inr (Process 60) \<and>
      GetWindowsBackgroundService2_run d \<lparr>windows = []\<rparr> False = Inl psutil_Error \<and>
      BackgroundService_loop \<lparr>windows = []\<rparr> [c, c] = (\<lparr>windows = []\<rparr>, Raised psutil_Error)"
  by (simp add: GetWindowsBackgroundService2_run_def enum_windows_callback_def ebind_simps
      Let_def)

text \<open>
  C8, as the code has it: \<open>_loop\<close> has returned only if the cancellation event was seen
  set (at the head of the loop or by the wait); an exception has left it only if a poll
  raised it; while no cancellation is seen and no poll raises, it keeps polling.  A
  failure of \<open>EnumWindows\<close> is not suppressed: it leaves \<open>_run\<close> and \<open>_loop\<close>, and the
  service polls no more.
\<close>

theorem loop_ends_on_cancel_or_exception:
  "(snd (BackgroundService_loop self cs) = Stopped \<longrightarrow> (\<exists>c \<in> set cs. is_set c \<or> wait c)) \<and>
   (snd (BackgroundService_loop self cs) = Raised e \<longrightarrow>
      (\<exists>c \<in> set cs. \<not> is_set c \<and>
         (\<forall>s w. GetWindowsBackgroundService2_run (desk c) s w = Inl e))) \<and>
   ((\<forall>c \<in> set cs. \<not> is_set c \<and> \<not> wait c \<and>
        (\<forall>s w. \<exists>r. GetWindowsBackgroundService2_run (desk c) s w = Inr r)) \<longrightarrow>
      snd (BackgroundService_loop self cs) = Polling) \<and>
   (\<forall>c tl. cs = c # tl \<and> \<not> is_set c \<and> EnumWindows (desk c) = Inl e \<longrightarrow>
      BackgroundService_loop self cs = (self, Raised e))"
proof (intro conjI)
  show "snd (BackgroundService_loop self cs) = Stopped \<longrightarrow> (\<exists>c \<in> set cs. is_set c \<or> wait c)"
    by (induction cs arbitrary: self)
      (auto split: sum.splits if_splits dest: run_returns_waited)
  show "snd (BackgroundService_loop self cs) = Raised e \<longrightarrow>
      (\<exists>c \<in> set cs. \<not> is_set c \<and>
         (\<forall>s w. GetWindowsBackgroundService2_run (desk c) s w = Inl e))"
    by (induction cs arbitrary: self)
      (auto split: sum.splits if_splits dest: run_raises_indep)
  show "(\<forall>c \<in> set cs. \<not> is_set c \<and> \<not> wait c \<and>
        (\<forall>s w. \<exists>r. GetWindowsBackgroundService2_run (desk c) s w = Inr r)) \<longrightarrow>
      snd (BackgroundService_loop self cs) = Polling"
  proof (induction cs arbitrary: self)
    case Nil
    then show ?case by simp
  next
    case (Cons c cs)
    show ?case
    proof
      assume a: "\<forall>c \<in> set (c # cs). \<not> is_set c \<and> \<not> wait c \<and>
        (\<forall>s w. \<exists>r. GetWindowsBackgroundService2_run (desk c) s w = Inr r)"
      then have nc: "\<not> is_set c" "\<not> wait c"
        and ex: "\<forall>s w. \<exists>r. GetWindowsBackgroundService2_run (desk c) s w = Inr r"
        and rest: "\<forall>c \<in> set cs. \<not> is_set c \<and> \<not> wait c \<and>
          (\<forall>s w. \<exists>r. GetWindowsBackgroundService2_run (desk c) s w = Inr r)"
        by simp_all
      from ex obtain r where "GetWindowsBackgroundService2_run (desk c) self (wait c) = Inr r"
        by blast
      moreover obtain s' b where "r = (s', b)" by (cases r)
      ultimately have r: "GetWindowsBackgroundService2_run (desk c) self (wait c) = Inr (s', b)"
        by simp
      from run_returns_waited [OF r] nc have "\<not> b" by simp
      with nc r rest Cons.IH [of s'] show "snd (BackgroundService_loop self (c # cs)) = Polling"
        by simp
    qed
  qed
  show "\<forall>c tl. cs = c # tl \<and> \<not> is_set c \<and> EnumWindows (desk c) = Inl e \<longrightarrow>
      BackgroundService_loop self cs = (self, Raised e)"
    by (auto simp: GetWindowsBackgroundService2_run_def ebind_simps)
qed

theorem loop_ends_on_cancel_or_exception_witness:
  "let d = \<lparr>EnumWindows = Inl pywintypes_error,
            IsWindowVisible = (\<lambda>h. True),
            GetWindowText = (\<lambda>h. ''a''),
            GetWindow_OWNER = (\<lambda>h. Inr 0),
            GetWindowThreadProcessId = (\<lambda>h. (0, h * 10)),
            getpid = 1,
            psutil_Process = (\<lambda>p. Inr (Process p)),
            create_time = (\<lambda>p. Inr (Finite 0))\<rparr>;
       c = \<lparr>is_set = False, desk = d, wait = False\<rparr>
   in \<not> is_set c \<and> EnumWindows (desk c) = Inl pywintypes_error \<and>
      BackgroundService_loop \<lparr>windows = []\<rparr> [c] = (\<lparr>windows = []\<rparr>, Raised pywintypes_error)"
  (is "Let ?d _")
  using loop_ends_on_cancel_or_exception
    [of "\<lparr>windows = []\<rparr>" "[\<lparr>is_set = False, desk = ?d, wait = False\<rparr>]" pywintypes_error]
  by (simp add: Let_def)

text \<open>
  C8 as stated fails: the loop ends because \<open>EnumWindows\<close> raised, with no cancellation
  requested and a further cycle at hand.
\<close>

theorem enumeration_failure_counterexample:
  "let failing = \<lparr>EnumWindows = Inl pywintypes_error,
            IsWindowVisible = (\<lambda>h. True),
            GetWindowText = (\<lambda>h. ''a''),
            GetWindow_OWNER = (\<lambda>h. Inr 0),
            GetWindowThreadProcessId = (\<lambda>h. (0, h * 10)),
            getpid = 1,
            psutil_Process = (\<lambda>p. Inr (Process p)),
            create_time = (\<lambda>p. Inr (Finite 0))\<rparr>;
       working = \<lparr>EnumWindows = Inr [5],
                  IsWindowVisible = (\<lambda>h. True),
                  GetWindowText = (\<lambda>h. ''a''),
                  GetWindow_OWNER = (\<lambda>h. Inr 0),
                  GetWindowThreadProcessId = (\<lambda>h. (0, h * 10)),
                  getpid = 1,
                  psutil_Process = (\<lambda>p. Inr (Process p)),
                  create_time = (\<lambda>p. Inr (Finite 0))\<rparr>
   in GetWindowsBackgroundService2_run working \<lparr>windows = []\<rparr> False
        = Inr (\<lparr>windows = [\<lparr>pid = 50, proc = Process 50, hwnd = 5, title = ''a'', process_created_at = Finite 0\<rparr>]\<rparr>, False) \<and>
      BackgroundService_loop \<lparr>windows = []\<rparr>
        [\<lparr>is_set = False, desk = failing, wait = False\<rparr>,
         \<lparr>is_set = False, desk = working, wait = False\<rparr>]
        = (\<lparr>windows = []\<rparr>, Raised pywintypes_error)"
  by (simp add: GetWindowsBackgroundService2_run_def enum_windows_callback_def ebind_simps
      Let_def)

section \<open>Failing geometry queries\<close>

text \<open>
  C7, as the code has it: when the monitor lookup or the rectangle lookup raises,
  \<open>center\<close> and \<open>resize\<close> raise the same exception, and when the current rectangle's
  height is \<open>0\<close>, \<open>resize\<close> raises \<open>ZeroDivisionError\<close>; in each case no call that
  changes the window has been issued.  The exception is not caught: when the operation
  runs for a clicked button of \<open>main\<close> (the button to center, the one for a bigger and
  the one for a smaller window), it leaves the row, whatever ran before it in the row
  without raising, and it leaves \<open>main\<close>, whatever rows came before, with the calls
  issued so far.
\<close>

theorem geometry_failure_propagates:
  "(from_hwnd os (hwnd self) = Inl e \<longrightarrow>
      center os self ratio = ([], Inl e) \<and> resize os self d = ([], Inl e)) \<and>
   (from_hwnd os (hwnd self) = Inr m \<and> GetWindowRect os (hwnd self) = Inl e \<longrightarrow>
      resize os self d = ([], Inl e)) \<and>
   (from_hwnd os (hwnd self) = Inr m \<and> GetWindowRect os (hwnd self) = Inr wr \<and>
    height (from_win32_rect wr) = 0 \<longrightarrow>
      resize os self d = ([], Inl ZeroDivisionError)) \<and>
   (center_clicked f (hwnd self) \<and> center (world f tr) self default_ratio = (cs, Inl e) \<longrightarrow>
      (\<exists>h'. main_rows H f st (self # ws) (h, tr) = (Inl e, h', tr @ cs))) \<and>
   (\<not> center_clicked f (hwnd self) \<and> bigger_clicked f (hwnd self) \<and>
    resize (world f tr) self 10 = (cs, Inl e) \<longrightarrow>
      (\<exists>h'. main_rows H f st (self # ws) (h, tr) = (Inl e, h', tr @ cs))) \<and>
   (\<not> center_clicked f (hwnd self) \<and> \<not> bigger_clicked f (hwnd self) \<and>
    smaller_clicked f (hwnd self) \<and> resize (world f tr) self (- 10) = (cs, Inl e) \<longrightarrow>
      (\<exists>h'. main_rows H f st (self # ws) (h, tr) = (Inl e, h', tr @ cs))) \<and>
   (on_click (center_clicked f (hwnd self)) (center (world f tr) self default_ratio) tr
      = (tr1, Inr ()) \<and>
    on_click (bigger_clicked f (hwnd self)) (resize (world f tr1) self 10) tr1
      = (tr2, Inl e) \<longrightarrow>
      (\<exists>h'. main_rows H f st (self # ws) (h, tr) = (Inl e, h', tr2))) \<and>
   (on_click (center_clicked f (hwnd self)) (center (world f tr) self default_ratio) tr
      = (tr1, Inr ()) \<and>
    on_click (bigger_clicked f (hwnd self)) (resize (world f tr1) self 10) tr1
      = (tr2, Inr ()) \<and>
    on_click (smaller_clicked f (hwnd self)) (resize (world f tr2) self (- 10)) tr2
      = (tr3, Inl e) \<longrightarrow>
      (\<exists>h'. main_rows H f st (self # ws) (h, tr) = (Inl e, h', tr3))) \<and>
   (windows service = before @ self # ws \<and>
    main_rows H f st before (h0, []) = (Inr (), h, tr) \<and>
    main_rows H f st (self # ws) (h, tr) = (Inl e, h', tr') \<longrightarrow>
      main H f st service h0 = (Inl e, h', tr'))"
proof (intro conjI impI)
  assume "center_clicked f (hwnd self) \<and> center (world f tr) self default_ratio = (cs, Inl e)"
  then obtain h' where "main_window H f st self (h, tr) = (Inl e, h', tr @ cs)"
    using main_window_center_raises by blast
  then show "\<exists>h'. main_rows H f st (self # ws) (h, tr) = (Inl e, h', tr @ cs)" by simp
next
  assume "\<not> center_clicked f (hwnd self) \<and> bigger_clicked f (hwnd self) \<and>
    resize (world f tr) self 10 = (cs, Inl e)"
  then obtain h' where "main_window H f st self (h, tr) = (Inl e, h', tr @ cs)"
    using main_window_bigger_raises by blast
  then show "\<exists>h'. main_rows H f st (self # ws) (h, tr) = (Inl e, h', tr @ cs)" by simp
next
  assume "\<not> center_clicked f (hwnd self) \<and> \<not> bigger_clicked f (hwnd self) \<and>
    smaller_clicked f (hwnd self) \<and> resize (world f tr) self (- 10) = (cs, Inl e)"
  then obtain h' where "main_window H f st self (h, tr) = (Inl e, h', tr @ cs)"
    using main_window_smaller_raises by blast
  then show "\<exists>h'. main_rows H f st (self # ws) (h, tr) = (Inl e, h', tr @ cs)" by simp
next
  assume "on_click (center_clicked f (hwnd self)) (center (world f tr) self default_ratio) tr
      = (tr1, Inr ()) \<and>
    on_click (bigger_clicked f (hwnd self)) (resize (world f tr1) self 10) tr1
      = (tr2, Inl e)"
  then obtain h' where "main_window H f st self (h, tr) = (Inl e, h', tr2)"
    using main_window_second_raises by blast
  then show "\<exists>h'. main_rows H f st (self # ws) (h, tr) = (Inl e, h', tr2)" by simp
next
  assume "on_click (center_clicked f (hwnd self)) (center (world f tr) self default_ratio) tr
      = (tr1, Inr ()) \<and>
    on_click (bigger_clicked f (hwnd self)) (resize (world f tr1) self 10) tr1
      = (tr2, Inr ()) \<and>
    on_click (smaller_clicked f (hwnd self)) (resize (world f tr2) self (- 10)) tr2
      = (tr3, Inl e)"
  then obtain h' where "main_window H f st self (h, tr) = (Inl e, h', tr3)"
    using main_window_third_raises by blast
  then show "\<exists>h'. main_rows H f st (self # ws) (h, tr) = (Inl e, h', tr3)" by simp
next
  assume a: "windows service = before @ self # ws \<and>
    main_rows H f st before (h0, []) = (Inr (), h, tr) \<and>
    main_rows H f st (self # ws) (h, tr) = (Inl e, h', tr')"
  then have "main_rows H f st (before @ self # ws) (h0, []) = (Inl e, h', tr')"
    using main_rows_after [of H f st before "(h0, [])" h tr "self # ws"] by simp
  with a show "main H f st service h0 = (Inl e, h', tr')" by (simp add: main_def)
qed (simp_all add: resize_monitor_fails center_monitor_fails resize_rect_fails resize_height_zero)

theorem geometry_failure_propagates_witness:
  "let os = \<lparr>MonitorFromWindow = (\<lambda>h. Inr 1),
             GetMonitorInfo_Work = (\<lambda>m. Inr (RECT_tuple 0 0 1920 1200)),
             GetWindowRect = (\<lambda>h. Inr (RECT_tuple 100 100 1100 100)),
             IsIconic = (\<lambda>h. False),
             MoveWindow = (\<lambda>h l t w hh b. None)\<rparr>;
       self = \<lparr>pid = 1, proc = Process 1, hwnd = 7, title = ''a'', process_created_at = Finite 0\<rparr>;
       frame = \<lparr>world = (\<lambda>tr. os),
                proc_exe = (\<lambda>p. Inr ''a.exe''),
                time_time = (\<lambda>i. Finite 0),
                pin_clicked = (\<lambda>i. False),
                center_clicked = (\<lambda>i. False),
                bigger_clicked = (\<lambda>i. False),
                smaller_clicked = (\<lambda>i. True)\<rparr>
   in from_hwnd os (hwnd self)
        = Inr \<lparr>work = \<lparr>left = 0, top' = 0, right = 1920, bottom = 1200\<rparr>\<rparr> \<and>
      GetWindowRect os (hwnd self) = Inr (RECT_tuple 100 100 1100 100) \<and>
      height (from_win32_rect (RECT_tuple 100 100 1100 100)) = 0 \<and>
      resize os self (- 10) = ([], Inl ZeroDivisionError) \<and>
      smaller_clicked frame (hwnd self) \<and>
      fst (main sum_list frame WindowStateStore_init \<lparr>windows = [self]\<rparr> heap_init)
        = Inl ZeroDivisionError"
  (is "Let ?os (\<lambda>_. Let ?w _)")
proof -
  let ?f = "\<lparr>world = (\<lambda>tr. ?os),
                proc_exe = (\<lambda>p. Inr ''a.exe''),
                time_time = (\<lambda>i. Finite 0),
                pin_clicked = (\<lambda>i. False),
                center_clicked = (\<lambda>i. False),
                bigger_clicked = (\<lambda>i. False),
                smaller_clicked = (\<lambda>i. True)\<rparr>"
  let ?m = "\<lparr>work = \<lparr>left = 0, top' = 0, right = 1920, bottom = 1200\<rparr>\<rparr>"
  have m: "from_hwnd ?os (hwnd ?w) = Inr ?m"
    by (simp add: from_hwnd_def ebind_simps)
  have wr: "GetWindowRect ?os (hwnd ?w) = Inr (RECT_tuple 100 100 1100 100)" by simp
  have z: "height (from_win32_rect (RECT_tuple 100 100 1100 100)) = 0"
    by (simp add: height_def)
  note t = geometry_failure_propagates
    [where os = ?os and self = ?w and e = ZeroDivisionError and d = "- 10" and m = ?m
       and wr = "RECT_tuple 100 100 1100 100" and f = ?f and tr = "[]" and cs = "[]"
       and H = sum_list and st = WindowStateStore_init and ws = "[]" and h = heap_init
       and service = "\<lparr>windows = [?w]\<rparr>" and before = "[]" and h0 = heap_init]
  from t have "from_hwnd ?os (hwnd ?w) = Inr ?m \<and>
      GetWindowRect ?os (hwnd ?w) = Inr (RECT_tuple 100 100 1100 100) \<and>
      height (from_win32_rect (RECT_tuple 100 100 1100 100)) = 0 \<longrightarrow>
      resize ?os ?w (- 10) = ([], Inl ZeroDivisionError)"
    by blast
  with m wr z have r: "resize ?os ?w (- 10) = ([], Inl ZeroDivisionError)" by blast
  then have pre: "\<not> center_clicked ?f (hwnd ?w) \<and> \<not> bigger_clicked ?f (hwnd ?w) \<and>
      smaller_clicked ?f (hwnd ?w) \<and>
      resize (world ?f []) ?w (- 10) = ([], Inl ZeroDivisionError)"
    by simp
  from t have "\<not> center_clicked ?f (hwnd ?w) \<and> \<not> bigger_clicked ?f (hwnd ?w) \<and>
      smaller_clicked ?f (hwnd ?w) \<and>
      resize (world ?f []) ?w (- 10) = ([], Inl ZeroDivisionError) \<longrightarrow>
      (\<exists>h'. main_rows sum_list ?f WindowStateStore_init (?w # []) (heap_init, [])
         = (Inl ZeroDivisionError, h', [] @ []))"
    by blast
  with pre obtain h' where
    rows: "main_rows sum_list ?f WindowStateStore_init (?w # []) (heap_init, [])
      = (Inl ZeroDivisionError, h', [] @ [])"
    by blast
  have none: "main_rows sum_list ?f WindowStateStore_init [] (heap_init, [])
      = (Inr (), heap_init, [])"
    by simp
  have split: "windows \<lparr>windows = [?w]\<rparr> = [] @ ?w # []" by simp
  from t have "windows \<lparr>windows = [?w]\<rparr> = [] @ ?w # [] \<and>
      main_rows sum_list ?f WindowStateStore_init [] (heap_init, []) = (Inr (), heap_init, []) \<and>
      main_rows sum_list ?f WindowStateStore_init (?w # []) (heap_init, [])
        = (Inl ZeroDivisionError, h', [] @ []) \<longrightarrow>
      main sum_list ?f WindowStateStore_init \<lparr>windows = [?w]\<rparr> heap_init
        = (Inl ZeroDivisionError, h', [] @ [])"
    by blast
  with split none rows
  have "main sum_list ?f WindowStateStore_init \<lparr>windows = [?w]\<rparr> heap_init
      = (Inl ZeroDivisionError, h', [] @ [])"
    by blast
  then have "fst (main sum_list ?f WindowStateStore_init \<lparr>windows = [?w]\<rparr> heap_init)
      = Inl ZeroDivisionError"
    by simp
  with m wr z r show ?thesis by (simp add: Let_def)
qed

text \<open>
  C7 as stated fails: for a window whose rectangle has height \<open>0\<close>, \<open>resize\<close> raises
  \<open>ZeroDivisionError\<close>, and a frame of \<open>main\<close> in which the button for a bigger window is
  clicked ends with that exception.
\<close>

theorem resize_zero_height_counterexample:
  "let os = \<lparr>MonitorFromWindow = (\<lambda>h. Inr 1),
             GetMonitorInfo_Work = (\<lambda>m. Inr (RECT_tuple 0 0 1920 1200)),
             GetWindowRect = (\<lambda>h. Inr (RECT_tuple 100 100 1100 100)),
             IsIconic = (\<lambda>h. False),
             MoveWindow = (\<lambda>h l t w hh b. None)\<rparr>;
       self = \<lparr>pid = 1, proc = Process 1, hwnd = 7, title = ''a'', process_created_at = Finite 0\<rparr>;
       frame = \<lparr>world = (\<lambda>tr. os),
                proc_exe = (\<lambda>p. Inr ''a.exe''),
                time_time = (\<lambda>i. Finite 0),
                pin_clicked = (\<lambda>i. False),
                center_clicked = (\<lambda>i. False),
                bigger_clicked = (\<lambda>i. True),
                smaller_clicked = (\<lambda>i. False)\<rparr>
   in height (from_win32_rect (RECT_tuple 100 100 1100 100)) = 0 \<and>
      resize os self 10 = ([], Inl ZeroDivisionError) \<and>
      fst (main sum_list frame WindowStateStore_init \<lparr>windows = [self]\<rparr> heap_init)
        = Inl ZeroDivisionError"
  (is "Let ?os (\<lambda>_. Let ?w _)")
proof -
  let ?f = "\<lparr>world = (\<lambda>tr. ?os),
                proc_exe = (\<lambda>p. Inr ''a.exe''),
                time_time = (\<lambda>i. Finite 0),
                pin_clicked = (\<lambda>i. False),
                center_clicked = (\<lambda>i. False),
                bigger_clicked = (\<lambda>i. True),
                smaller_clicked = (\<lambda>i. False)\<rparr>"
  have m: "from_hwnd ?os (hwnd ?w)
     = Inr \<lparr>work = \<lparr>left = 0, top' = 0, right = 1920, bottom = 1200\<rparr>\<rparr>"
    by (simp add: from_hwnd_def ebind_simps)
  have wr: "GetWindowRect ?os (hwnd ?w) = Inr (RECT_tuple 100 100 1100 100)" by simp
  have z: "height (from_win32_rect (RECT_tuple 100 100 1100 100)) = 0"
    by (simp add: height_def)
  have r: "resize ?os ?w 10 = ([], Inl ZeroDivisionError)"
    using m wr z by (rule resize_height_zero)
  have "\<exists>h'. main_window sum_list ?f WindowStateStore_init ?w (heap_init, [])
      = (Inl ZeroDivisionError, h', [] @ [])"
    by (rule main_window_bigger_raises) (simp_all add: r)
  then show ?thesis
    using r z unfolding Let_def by (auto simp: main_def)
qed

end
